theory Spec2Isabelle
  imports Complex_Main "HOL-Library.Word" "HOL-Library.AList"
begin

section \<open>The room session relay of \<^verbatim>\<open>src/server.js\<close>\<close>

text \<open>
  The server keeps one process-wide \<^verbatim>\<open>Map\<close> from room id to a room object and reacts
  to named events of socket connections. Every handler runs to completion, so a handler
  is a function from the registry, the acting connection and the payload to the new
  registry and the list of transport calls it made, in order.

  What lies outside the program is a parameter or an input of the model:
  \<^item> the coercion \<^verbatim>\<open>Number(v)\<close> of a string or of an object is the host's (record
    \<open>host\<close>); on an object it can throw a \<^verbatim>\<open>TypeError\<close>, which no handler catches, so
    the handler's result is \<open>None\<close> (the process ends);
  \<^item> \<^verbatim>\<open>Date.now()\<close> and \<^verbatim>\<open>Math.random().toString(36).slice(2,10)\<close> are read by the
    handler from the environment: their values travel with the event;
  \<^item> the transport (\<^verbatim>\<open>socket.emit\<close>, \<^verbatim>\<open>io.to(x).emit\<close>, \<^verbatim>\<open>socket.join\<close>) is recorded as
    a list of actions, not interpreted.
\<close>

subsection \<open>Strings\<close>

text \<open>
  A JavaScript string is a sequence of UTF-16 code units; \<^verbatim>\<open>slice\<close>, \<^verbatim>\<open>trim\<close> and a
  regular expression without the \<^verbatim>\<open>u\<close> flag all work on code units.
\<close>

type_synonym jstr = "16 word list"

definition u16 :: "string \<Rightarrow> jstr" where
  "u16 s = map (\<lambda>c. of_nat (of_char c)) s"

text \<open>\<^verbatim>\<open>String.prototype.trim\<close> strips WhiteSpace and LineTerminator code points.\<close>

definition isWhiteSpace :: "16 word \<Rightarrow> bool" where
  "isWhiteSpace c \<longleftrightarrow>
     c \<in> {0x09, 0x0A, 0x0B, 0x0C, 0x0D, 0x20, 0xA0, 0x1680,
          0x2028, 0x2029, 0x202F, 0x205F, 0x3000, 0xFEFF}
     \<or> (0x2000 \<le> c \<and> c \<le> 0x200A)"

definition trim :: "jstr \<Rightarrow> jstr" where
  "trim s = rev (dropWhile isWhiteSpace (rev (dropWhile isWhiteSpace s)))"

text \<open>The character class \<^verbatim>\<open>[a-zA-Z0-9_-]\<close>.\<close>

definition allowed :: "16 word \<Rightarrow> bool" where
  "allowed c \<longleftrightarrow>
     (0x61 \<le> c \<and> c \<le> 0x7A) \<or> (0x41 \<le> c \<and> c \<le> 0x5A) \<or> (0x30 \<le> c \<and> c \<le> 0x39)
     \<or> c = 0x5F \<or> c = 0x2D"

text \<open>
  \<^verbatim>\<open>String(raw || "").trim().slice(0, 32).replace(/[^a-zA-Z0-9_-]/g, "")\<close>, for a string
  \<^verbatim>\<open>raw\<close> (a missing \<^verbatim>\<open>roomId\<close> behaves as the empty string).
\<close>

definition safeRoomId :: "jstr \<Rightarrow> jstr" where
  "safeRoomId raw = filter allowed (take 32 (trim raw))"

subsection \<open>Documents\<close>

text \<open>
  A sheet is whatever the client sent: a JSON value, or \<^verbatim>\<open>undefined\<close> when the field is
  missing. Numbers are doubles; the program never computes with them, it only passes them
  on and tests them for truth.
\<close>

datatype jsnum = Fin rat | NegZero | NaN | PosInf | NegInf

datatype jval =
    JUndefined
  | JNull
  | JBool bool
  | JNum jsnum
  | JStr jstr
  | JArr "jval list"
  | JObj "(jstr \<times> jval) list"

fun truthy :: "jval \<Rightarrow> bool" where
  "truthy JUndefined = False"
| "truthy JNull = False"
| "truthy (JBool b) = b"
| "truthy (JNum n) = (n \<noteq> Fin 0 \<and> n \<noteq> NegZero \<and> n \<noteq> NaN)"
| "truthy (JStr s) = (s \<noteq> [])"
| "truthy (JArr xs) = True"
| "truthy (JObj kvs) = True"

text \<open>
  \<^verbatim>\<open>v?.k\<close> for the property names the program reads (\<^verbatim>\<open>hp_now\<close>, \<^verbatim>\<open>pd_now\<close>,
  \<^verbatim>\<open>resources\<close>, \<^verbatim>\<open>hp\<close>, \<^verbatim>\<open>pd\<close>, \<^verbatim>\<open>name\<close>, \<^verbatim>\<open>character\<close>): an object yields its own
  property, everything else \<^verbatim>\<open>undefined\<close>.
\<close>

fun get :: "jval \<Rightarrow> jstr \<Rightarrow> jval" where
  "get (JObj kvs) k = (case map_of kvs k of Some v \<Rightarrow> v | None \<Rightarrow> JUndefined)"
| "get v k = JUndefined"

text \<open>\<^verbatim>\<open>a ?? b\<close>\<close>

definition coalesce :: "jval \<Rightarrow> jval \<Rightarrow> jval" where
  "coalesce a b = (if a = JUndefined \<or> a = JNull then b else a)"

record host =
  StringToNumber :: "jstr \<Rightarrow> jsnum"
  ObjectToNumber :: "jval \<Rightarrow> jsnum option"

text \<open>\<^verbatim>\<open>Number(v)\<close>; \<open>None\<close> is the \<^verbatim>\<open>TypeError\<close> of an object without a primitive value.\<close>

fun Number :: "host \<Rightarrow> jval \<Rightarrow> jsnum option" where
  "Number h JUndefined = Some NaN"
| "Number h JNull = Some (Fin 0)"
| "Number h (JBool b) = Some (Fin (if b then 1 else 0))"
| "Number h (JNum n) = Some n"
| "Number h (JStr s) = Some (StringToNumber h s)"
| "Number h v = ObjectToNumber h v"

subsection \<open>Summary of a sheet\<close>

text \<open>The object \<^verbatim>\<open>{ hp, pd, name }\<close>; \<open>None\<close> in \<open>s_hp\<close> and \<open>s_pd\<close> is \<^verbatim>\<open>null\<close>.\<close>

record summary =
  s_hp :: "jsnum option"
  s_pd :: "jsnum option"
  s_name :: jval

definition numberOrNull :: "host \<Rightarrow> jval \<Rightarrow> jsnum option option" where
  \<comment> \<open>\<^verbatim>\<open>x !== "" ? Number(x) : null\<close>\<close>
  "numberOrNull h x = (if x \<noteq> JStr [] then map_option Some (Number h x) else Some None)"

definition extractSummaryFromSheet :: "host \<Rightarrow> jval \<Rightarrow> summary option" where
  "extractSummaryFromSheet h sheet =
     (let hp = coalesce (coalesce (get sheet (u16 ''hp_now''))
                                  (get (get sheet (u16 ''resources'')) (u16 ''hp''))) JNull;
          pd = coalesce (coalesce (get sheet (u16 ''pd_now''))
                                  (get (get sheet (u16 ''resources'')) (u16 ''pd''))) JNull;
          name = coalesce (coalesce (get sheet (u16 ''name''))
                                    (get (get sheet (u16 ''character'')) (u16 ''name''))) JNull
      in case numberOrNull h hp of
           None \<Rightarrow> None
         | Some hpv \<Rightarrow>
            (case numberOrNull h pd of
               None \<Rightarrow> None
             | Some pdv \<Rightarrow>
                 Some \<lparr>s_hp = hpv, s_pd = pdv,
                       s_name = (if truthy name then name else JNull)\<rparr>))"

subsection \<open>Rooms\<close>

datatype role = Master | Player

record user =
  u_name :: jstr
  u_role :: role

text \<open>The \<^verbatim>\<open>from\<close> object of a roll and the roll entry itself.\<close>

record origin =
  o_socketId :: jstr
  o_name :: jstr
  o_role :: role

record roll =
  r_roomId :: jstr
  r_from :: origin
  r_payload :: jval
  r_at :: int

text \<open>
  \<^verbatim>\<open>users\<close>, \<^verbatim>\<open>sheets\<close> and \<^verbatim>\<open>npcs\<close> are plain objects used as dictionaries. Their keys
  are connection ids and generated NPC ids, so \<^verbatim>\<open>Object.entries\<close> enumerates them in
  insertion order: the model is the list of entries in that order. \<open>map_of\<close> reads a
  key, \<open>AList.update\<close> assigns (in place, or at the end for a new key), \<open>AList.delete\<close>
  is \<^verbatim>\<open>delete\<close>. \<open>masterSocketId = None\<close> is \<^verbatim>\<open>null\<close>. The lists hold own
  properties only: a key that names a member of \<^verbatim>\<open>Object.prototype\<close> (\<^verbatim>\<open>__proto__\<close>,
  \<^verbatim>\<open>constructor\<close>, ...), which only the master can choose, as \<^verbatim>\<open>ownerSocketId\<close> or
  \<^verbatim>\<open>npcId\<close>, is outside the model.
\<close>

record room =
  masterSocketId :: "jstr option"
  users :: "(jstr \<times> user) list"
  sheets :: "(jstr \<times> jval) list"
  npcs :: "(jstr \<times> jval) list"
  rolls :: "roll list"

text \<open>The \<^verbatim>\<open>Map\<close> of rooms, in insertion order (the order \<^verbatim>\<open>rooms.entries()\<close> yields).\<close>

type_synonym registry = "(jstr \<times> room) list"

definition new_room :: room where
  "new_room = \<lparr>masterSocketId = None, users = [], sheets = [], npcs = [], rolls = []\<rparr>"

definition ensureRoom :: "registry \<Rightarrow> jstr \<Rightarrow> registry \<times> room" where
  "ensureRoom rooms roomId =
     (case map_of rooms roomId of
        None \<Rightarrow> (AList.update roomId new_room rooms, new_room)
      | Some room \<Rightarrow> (rooms, room))"

text \<open>Truth of \<^verbatim>\<open>room.masterSocketId\<close>: neither \<^verbatim>\<open>null\<close> nor the empty string.\<close>

definition truthy_id :: "jstr option \<Rightarrow> bool" where
  "truthy_id m = (case m of None \<Rightarrow> False | Some s \<Rightarrow> s \<noteq> [])"

text \<open>\<^verbatim>\<open>o[k]\<close> on a dictionary of documents: \<^verbatim>\<open>undefined\<close> for a missing key.\<close>

definition lookup_doc :: "(jstr \<times> jval) list \<Rightarrow> jstr \<Rightarrow> jval" where
  "lookup_doc kvs k = (case map_of kvs k of Some v \<Rightarrow> v | None \<Rightarrow> JUndefined)"

definition userName :: "room \<Rightarrow> jstr \<Rightarrow> jstr" where
  "userName room sid =
     (case map_of (users room) sid of
        None \<Rightarrow> u16 ''Player''
      | Some u \<Rightarrow> if u_name u \<noteq> [] then u_name u else u16 ''Player'')"

subsection \<open>The master's index\<close>

datatype etype = PlayerEntry | NpcEntry

record entry =
  e_id :: jstr
  e_type :: etype
  e_name :: jval
  e_hp :: "jsnum option"
  e_pd :: "jsnum option"

text \<open>The two loops of \<^verbatim>\<open>buildIndex\<close>; the accumulator is \<^verbatim>\<open>list\<close>.\<close>

fun index_players :: "host \<Rightarrow> room \<Rightarrow> (jstr \<times> user) list \<Rightarrow> entry list \<Rightarrow> entry list option" where
  "index_players h room [] list = Some list"
| "index_players h room ((sid, u) # rest) list =
     (if u_role u \<noteq> Player then index_players h room rest list
      else
        let sh = lookup_doc (sheets room) sid in
        case (if truthy sh then extractSummaryFromSheet h sh
              else Some \<lparr>s_hp = None, s_pd = None, s_name = JStr (u_name u)\<rparr>) of
          None \<Rightarrow> None
        | Some s \<Rightarrow>
            index_players h room rest
              (list @ [\<lparr>e_id = sid, e_type = PlayerEntry,
                        e_name = (if truthy (s_name s) then s_name s else JStr (u_name u)),
                        e_hp = s_hp s, e_pd = s_pd s\<rparr>]))"

fun index_npcs :: "host \<Rightarrow> (jstr \<times> jval) list \<Rightarrow> entry list \<Rightarrow> entry list option" where
  "index_npcs h [] list = Some list"
| "index_npcs h ((nid, sh) # rest) list =
     (case extractSummaryFromSheet h sh of
        None \<Rightarrow> None
      | Some s \<Rightarrow>
          index_npcs h rest
            (list @ [\<lparr>e_id = nid, e_type = NpcEntry,
                      e_name = (if truthy (s_name s) then s_name s else JStr (u16 ''NPC'')),
                      e_hp = s_hp s, e_pd = s_pd s\<rparr>]))"

definition buildIndex :: "host \<Rightarrow> room \<Rightarrow> entry list option" where
  "buildIndex h room =
     (case index_players h room (users room) [] of
        None \<Rightarrow> None
      | Some list \<Rightarrow> index_npcs h (npcs room) list)"

subsection \<open>Messages and transport calls\<close>

text \<open>
  The texts sent with \<^verbatim>\<open>error:msg\<close>, one constructor per distinct text, in source order:
  \<^verbatim>\<open>Room ID invalido.\<close> \<^verbatim>\<open>Essa sala ja tem mestre. Entre como Player.\<close>
  \<^verbatim>\<open>Sala nao existe (ou esta sem mestre).\<close> \<^verbatim>\<open>Apenas o mestre pode ver fichas de outros.\<close>
  \<^verbatim>\<open>Esse player ainda nao enviou a ficha.\<close> \<^verbatim>\<open>Apenas o mestre pode editar fichas de outros.\<close>
  \<^verbatim>\<open>So o mestre pode criar NPC.\<close> \<^verbatim>\<open>NPC nao encontrado.\<close> \<^verbatim>\<open>So o mestre pode editar NPC.\<close>
  \<^verbatim>\<open>So o mestre pode excluir NPC.\<close> \<^verbatim>\<open>O mestre desconectou. Sala ficou sem mestre.\<close>
  (written here without their accents).
\<close>

datatype errmsg =
    InvalidRoomId
  | AlreadyHasMaster
  | RoomNotFound
  | OnlyMasterSeesSheets
  | SheetNotSent
  | OnlyMasterEditsSheets
  | OnlyMasterCreatesNpc
  | NpcNotFound
  | OnlyMasterEditsNpc
  | OnlyMasterDeletesNpc
  | MasterDisconnected

datatype msg =
    ErrorMsg errmsg                  \<comment> \<open>\<^verbatim>\<open>error:msg\<close>\<close>
  | RoomJoined jstr role jstr        \<comment> \<open>\<^verbatim>\<open>room:joined { roomId, role, socketId }\<close>\<close>
  | RollHistory "roll list"          \<comment> \<open>\<^verbatim>\<open>roll:history { list }\<close>\<close>
  | SheetsIndex "entry list"         \<comment> \<open>\<^verbatim>\<open>room:sheetsIndex { list }\<close>\<close>
  | SheetLoad jstr jval              \<comment> \<open>\<^verbatim>\<open>sheet:load { ownerSocketId, sheet, type: "player", id }\<close>\<close>
  | SheetSummary jstr jstr summary   \<comment> \<open>\<^verbatim>\<open>sheet:summary { ownerSocketId, ownerName, ...sum }\<close>\<close>
  | SheetPush jstr jval              \<comment> \<open>\<^verbatim>\<open>sheet:push { ownerSocketId, sheet }\<close>\<close>
  | NpcCreated jstr jval             \<comment> \<open>\<^verbatim>\<open>npc:created { npcId, sheet }\<close>\<close>
  | NpcLoad jstr jval                \<comment> \<open>\<^verbatim>\<open>npc:load { npcId, sheet }\<close>\<close>
  | RollBroadcast roll               \<comment> \<open>\<^verbatim>\<open>roll:broadcast\<close>\<close>

text \<open>
  \<open>Emit sid m\<close> is \<^verbatim>\<open>socket.emit\<close> on the connection \<open>sid\<close>; \<open>To x m\<close> is
  \<^verbatim>\<open>io.to(x).emit\<close>, addressed to the transport group named \<open>x\<close> (a room id, or a
  connection id, whose group holds that connection); \<open>Join sid x\<close> is \<^verbatim>\<open>socket.join(x)\<close>.
\<close>

datatype action =
    Emit jstr msg
  | To "jstr option" msg
  | Join jstr jstr

definition emitIndex :: "host \<Rightarrow> room \<Rightarrow> action option" where
  "emitIndex h room = map_option (\<lambda>list. To (masterSocketId room) (SheetsIndex list)) (buildIndex h room)"

subsection \<open>The handlers\<close>

text \<open>
  Each handler takes the registry, \<^verbatim>\<open>socket.id\<close> and the payload fields. \<open>None\<close> is an
  uncaught exception. A room object is shared with the registry, so an assignment to one
  of its fields is written back with \<open>AList.update\<close> under the room's key.
\<close>

definition room_create :: "host \<Rightarrow> registry \<Rightarrow> jstr \<Rightarrow> jstr \<Rightarrow> jstr \<Rightarrow> (registry \<times> action list) option" where
  "room_create h rooms sid roomId name =
     (let id = safeRoomId roomId in
      if id = [] then Some (rooms, [Emit sid (ErrorMsg InvalidRoomId)])
      else
        let (rooms1, room) = ensureRoom rooms id in
        if truthy_id (masterSocketId room)
           \<and> (case masterSocketId room of None \<Rightarrow> False | Some m \<Rightarrow> map_of (users room) m \<noteq> None)
        then Some (rooms1, [Emit sid (ErrorMsg AlreadyHasMaster)])
        else
          let room' = room\<lparr>masterSocketId := Some sid,
                           users := AList.update sid
                             \<lparr>u_name = take 40 (if name \<noteq> [] then name else u16 ''Mestre''),
                              u_role = Master\<rparr> (users room)\<rparr>
          in case emitIndex h room' of
               None \<Rightarrow> None
             | Some ix \<Rightarrow>
                 Some (AList.update id room' rooms1,
                       [Join sid id,
                        Emit sid (RoomJoined id Master sid),
                        Emit sid (RollHistory (rolls room')),
                        ix]))"

definition room_join :: "host \<Rightarrow> registry \<Rightarrow> jstr \<Rightarrow> jstr \<Rightarrow> jstr \<Rightarrow> (registry \<times> action list) option" where
  "room_join h rooms sid roomId name =
     (let id = safeRoomId roomId in
      if id = [] then Some (rooms, [Emit sid (ErrorMsg InvalidRoomId)])
      else
        case map_of rooms id of
          None \<Rightarrow> Some (rooms, [Emit sid (ErrorMsg RoomNotFound)])
        | Some room \<Rightarrow>
            if \<not> truthy_id (masterSocketId room)
            then Some (rooms, [Emit sid (ErrorMsg RoomNotFound)])
            else
              let room' = room\<lparr>users := AList.update sid
                                 \<lparr>u_name = take 40 (if name \<noteq> [] then name else u16 ''Player''),
                                  u_role = Player\<rparr> (users room)\<rparr>;
                  sh = lookup_doc (sheets room') sid
              in (case emitIndex h room' of
                    None \<Rightarrow> None
                  | Some ix \<Rightarrow>
                      Some (AList.update id room' rooms,
                            [Join sid id,
                             Emit sid (RoomJoined id Player sid),
                             Emit sid (RollHistory (rolls room'))]
                            @ (if truthy sh then [Emit sid (SheetLoad sid sh)] else [])
                            @ [ix])))"

definition room_requestIndex :: "host \<Rightarrow> registry \<Rightarrow> jstr \<Rightarrow> jstr \<Rightarrow> (registry \<times> action list) option" where
  "room_requestIndex h rooms sid roomId =
     (let id = safeRoomId roomId in
      case map_of rooms id of
        None \<Rightarrow> Some (rooms, [])
      | Some room \<Rightarrow>
          if Some sid \<noteq> masterSocketId room then Some (rooms, [])
          else map_option (\<lambda>ix. (rooms, [ix])) (emitIndex h room))"

definition sheet_save :: "host \<Rightarrow> registry \<Rightarrow> jstr \<Rightarrow> jstr \<Rightarrow> jval \<Rightarrow> (registry \<times> action list) option" where
  "sheet_save h rooms sid roomId sheet =
     (let id = safeRoomId roomId in
      case map_of rooms id of
        None \<Rightarrow> Some (rooms, [])
      | Some room \<Rightarrow>
          if map_of (users room) sid = None then Some (rooms, [])
          else
            let room' = room\<lparr>sheets := AList.update sid sheet (sheets room)\<rparr> in
            (case extractSummaryFromSheet h sheet of
               None \<Rightarrow> None
             | Some smry \<Rightarrow>
                 if truthy_id (masterSocketId room') then
                   (case emitIndex h room' of
                      None \<Rightarrow> None
                    | Some ix \<Rightarrow>
                        Some (AList.update id room' rooms,
                              [To (masterSocketId room') (SheetSummary sid (userName room' sid) smry),
                               To (masterSocketId room') (SheetPush sid sheet),
                               ix]))
                 else Some (AList.update id room' rooms, [])))"

definition master_requestSheet :: "host \<Rightarrow> registry \<Rightarrow> jstr \<Rightarrow> jstr \<Rightarrow> jstr \<Rightarrow> (registry \<times> action list) option" where
  "master_requestSheet h rooms sid roomId ownerSocketId =
     (let id = safeRoomId roomId in
      case map_of rooms id of
        None \<Rightarrow> Some (rooms, [])
      | Some room \<Rightarrow>
          if Some sid \<noteq> masterSocketId room
          then Some (rooms, [Emit sid (ErrorMsg OnlyMasterSeesSheets)])
          else
            let sheet = lookup_doc (sheets room) ownerSocketId in
            if \<not> truthy sheet then Some (rooms, [Emit sid (ErrorMsg SheetNotSent)])
            else Some (rooms, [Emit sid (SheetLoad ownerSocketId sheet)]))"

definition master_updateSheet :: "host \<Rightarrow> registry \<Rightarrow> jstr \<Rightarrow> jstr \<Rightarrow> jstr \<Rightarrow> jval \<Rightarrow> (registry \<times> action list) option" where
  "master_updateSheet h rooms sid roomId ownerSocketId sheet =
     (let id = safeRoomId roomId in
      case map_of rooms id of
        None \<Rightarrow> Some (rooms, [])
      | Some room \<Rightarrow>
          if Some sid \<noteq> masterSocketId room
          then Some (rooms, [Emit sid (ErrorMsg OnlyMasterEditsSheets)])
          else
            let room' = room\<lparr>sheets := AList.update ownerSocketId sheet (sheets room)\<rparr> in
            (case emitIndex h room' of
               None \<Rightarrow> None
             | Some ix \<Rightarrow>
                 Some (AList.update id room' rooms,
                       [To (Some ownerSocketId) (SheetLoad ownerSocketId sheet),
                        Emit sid (SheetLoad ownerSocketId sheet),
                        ix])))"

text \<open>
  \<open>rnd\<close> is the string \<^verbatim>\<open>Math.random().toString(36).slice(2,10)\<close> drawn by this call.
\<close>

definition npc_create :: "host \<Rightarrow> registry \<Rightarrow> jstr \<Rightarrow> jstr \<Rightarrow> jval \<Rightarrow> jstr \<Rightarrow> (registry \<times> action list) option" where
  "npc_create h rooms sid roomId sheet rnd =
     (let id = safeRoomId roomId in
      case map_of rooms id of
        None \<Rightarrow> Some (rooms, [])
      | Some room \<Rightarrow>
          if Some sid \<noteq> masterSocketId room
          then Some (rooms, [Emit sid (ErrorMsg OnlyMasterCreatesNpc)])
          else
            let npcId = u16 ''npc_'' @ rnd;
                doc = (if truthy sheet then sheet else JObj []);
                room' = room\<lparr>npcs := AList.update npcId doc (npcs room)\<rparr>
            in (case emitIndex h room' of
                  None \<Rightarrow> None
                | Some ix \<Rightarrow>
                    Some (AList.update id room' rooms, [Emit sid (NpcCreated npcId doc), ix])))"

definition npc_request :: "host \<Rightarrow> registry \<Rightarrow> jstr \<Rightarrow> jstr \<Rightarrow> jstr \<Rightarrow> (registry \<times> action list) option" where
  "npc_request h rooms sid roomId npcId =
     (let id = safeRoomId roomId in
      case map_of rooms id of
        None \<Rightarrow> Some (rooms, [])
      | Some room \<Rightarrow>
          if Some sid \<noteq> masterSocketId room then Some (rooms, [])
          else
            let sheet = lookup_doc (npcs room) npcId in
            if \<not> truthy sheet then Some (rooms, [Emit sid (ErrorMsg NpcNotFound)])
            else Some (rooms, [Emit sid (NpcLoad npcId sheet)]))"

definition npc_update :: "host \<Rightarrow> registry \<Rightarrow> jstr \<Rightarrow> jstr \<Rightarrow> jstr \<Rightarrow> jval \<Rightarrow> (registry \<times> action list) option" where
  "npc_update h rooms sid roomId npcId sheet =
     (let id = safeRoomId roomId in
      case map_of rooms id of
        None \<Rightarrow> Some (rooms, [])
      | Some room \<Rightarrow>
          if Some sid \<noteq> masterSocketId room
          then Some (rooms, [Emit sid (ErrorMsg OnlyMasterEditsNpc)])
          else if \<not> truthy (lookup_doc (npcs room) npcId)
          then Some (rooms, [Emit sid (ErrorMsg NpcNotFound)])
          else
            let room' = room\<lparr>npcs := AList.update npcId sheet (npcs room)\<rparr> in
            (case emitIndex h room' of
               None \<Rightarrow> None
             | Some ix \<Rightarrow>
                 Some (AList.update id room' rooms, [Emit sid (NpcLoad npcId sheet), ix])))"

definition npc_delete :: "host \<Rightarrow> registry \<Rightarrow> jstr \<Rightarrow> jstr \<Rightarrow> jstr \<Rightarrow> (registry \<times> action list) option" where
  "npc_delete h rooms sid roomId npcId =
     (let id = safeRoomId roomId in
      case map_of rooms id of
        None \<Rightarrow> Some (rooms, [])
      | Some room \<Rightarrow>
          if Some sid \<noteq> masterSocketId room
          then Some (rooms, [Emit sid (ErrorMsg OnlyMasterDeletesNpc)])
          else
            let room' = room\<lparr>npcs := AList.delete npcId (npcs room)\<rparr> in
            (case emitIndex h room' of
               None \<Rightarrow> None
             | Some ix \<Rightarrow> Some (AList.update id room' rooms, [ix])))"

text \<open>
  \<^verbatim>\<open>room.rolls.push(entry); if (room.rolls.length > 50) room.rolls.shift();\<close>
\<close>

definition push_roll :: "roll list \<Rightarrow> roll \<Rightarrow> roll list" where
  "push_roll rs entry = (let rs' = rs @ [entry] in if length rs' > 50 then tl rs' else rs')"

text \<open>
  The object \<^verbatim>\<open>entry\<close> of \<^verbatim>\<open>roll:send\<close>; \<open>now\<close> is the value of \<^verbatim>\<open>Date.now()\<close> read
  by this call.
\<close>

definition roll_entry :: "jstr \<Rightarrow> jstr \<Rightarrow> user \<Rightarrow> jval \<Rightarrow> int \<Rightarrow> roll" where
  "roll_entry roomId sid user payload now =
     \<lparr>r_roomId = roomId,
      r_from = \<lparr>o_socketId = sid, o_name = u_name user, o_role = u_role user\<rparr>,
      r_payload = payload, r_at = now\<rparr>"

definition roll_send :: "host \<Rightarrow> registry \<Rightarrow> jstr \<Rightarrow> jstr \<Rightarrow> jval \<Rightarrow> int \<Rightarrow> (registry \<times> action list) option" where
  "roll_send h rooms sid roomId payload now =
     (let id = safeRoomId roomId in
      case map_of rooms id of
        None \<Rightarrow> Some (rooms, [])
      | Some room \<Rightarrow>
          (case map_of (users room) sid of
             None \<Rightarrow> Some (rooms, [])
           | Some user \<Rightarrow>
               let entry = roll_entry id sid user payload now;
                   room' = room\<lparr>rolls := push_roll (rolls room) entry\<rparr>
               in Some (AList.update id room' rooms, [To (Some id) (RollBroadcast entry)])))"

text \<open>
  The loop over \<^verbatim>\<open>rooms.entries()\<close>: \<open>rooms\<close> is the whole registry, the list argument
  the entries not yet visited. The first room that holds the connection is handled, then
  the loop breaks.
\<close>

fun disconnect_scan :: "host \<Rightarrow> registry \<Rightarrow> (jstr \<times> room) list \<Rightarrow> jstr \<Rightarrow> (registry \<times> action list) option" where
  "disconnect_scan h rooms [] sid = Some (rooms, [])"
| "disconnect_scan h rooms ((roomId, room) # rest) sid =
     (if map_of (users room) sid \<noteq> None then
        let wasMaster = (masterSocketId room = Some sid);
            room1 = room\<lparr>users := AList.delete sid (users room)\<rparr>;
            room2 = (if wasMaster then room1\<lparr>masterSocketId := None\<rparr> else room1);
            out1 = (if wasMaster then [To (Some roomId) (ErrorMsg MasterDisconnected)] else [])
        in case (if truthy_id (masterSocketId room2)
                 then map_option (\<lambda>ix. [ix]) (emitIndex h room2) else Some []) of
             None \<Rightarrow> None
           | Some out2 \<Rightarrow>
               Some (if users room2 = [] then AList.delete roomId rooms
                     else AList.update roomId room2 rooms,
                     out1 @ out2)
      else disconnect_scan h rooms rest sid)"

definition disconnect :: "host \<Rightarrow> registry \<Rightarrow> jstr \<Rightarrow> (registry \<times> action list) option" where
  "disconnect h rooms sid = disconnect_scan h rooms rooms sid"

subsection \<open>The dispatcher\<close>

datatype event =
    RoomCreate jstr jstr             \<comment> \<open>\<^verbatim>\<open>room:create { roomId, name }\<close>\<close>
  | RoomJoin jstr jstr               \<comment> \<open>\<^verbatim>\<open>room:join { roomId, name }\<close>\<close>
  | RequestIndex jstr                \<comment> \<open>\<^verbatim>\<open>room:requestIndex { roomId }\<close>\<close>
  | SheetSave jstr jval              \<comment> \<open>\<^verbatim>\<open>sheet:save { roomId, sheet }\<close>\<close>
  | MasterRequestSheet jstr jstr     \<comment> \<open>\<^verbatim>\<open>master:requestSheet { roomId, ownerSocketId }\<close>\<close>
  | MasterUpdateSheet jstr jstr jval \<comment> \<open>\<^verbatim>\<open>master:updateSheet { roomId, ownerSocketId, sheet }\<close>\<close>
  | NpcCreate jstr jval jstr         \<comment> \<open>\<^verbatim>\<open>npc:create { roomId, sheet }\<close>, and the random string\<close>
  | NpcRequest jstr jstr             \<comment> \<open>\<^verbatim>\<open>npc:request { roomId, npcId }\<close>\<close>
  | NpcUpdate jstr jstr jval         \<comment> \<open>\<^verbatim>\<open>npc:update { roomId, npcId, sheet }\<close>\<close>
  | NpcDelete jstr jstr              \<comment> \<open>\<^verbatim>\<open>npc:delete { roomId, npcId }\<close>\<close>
  | RollSend jstr jval int           \<comment> \<open>\<^verbatim>\<open>roll:send { roomId, payload }\<close>, and the clock\<close>
  | Disconnect                       \<comment> \<open>\<^verbatim>\<open>disconnect\<close>\<close>

fun step :: "host \<Rightarrow> registry \<Rightarrow> jstr \<times> event \<Rightarrow> (registry \<times> action list) option" where
  "step h rooms (sid, RoomCreate roomId name) = room_create h rooms sid roomId name"
| "step h rooms (sid, RoomJoin roomId name) = room_join h rooms sid roomId name"
| "step h rooms (sid, RequestIndex roomId) = room_requestIndex h rooms sid roomId"
| "step h rooms (sid, SheetSave roomId sheet) = sheet_save h rooms sid roomId sheet"
| "step h rooms (sid, MasterRequestSheet roomId owner) = master_requestSheet h rooms sid roomId owner"
| "step h rooms (sid, MasterUpdateSheet roomId owner sheet) = master_updateSheet h rooms sid roomId owner sheet"
| "step h rooms (sid, NpcCreate roomId sheet rnd) = npc_create h rooms sid roomId sheet rnd"
| "step h rooms (sid, NpcRequest roomId npcId) = npc_request h rooms sid roomId npcId"
| "step h rooms (sid, NpcUpdate roomId npcId sheet) = npc_update h rooms sid roomId npcId sheet"
| "step h rooms (sid, NpcDelete roomId npcId) = npc_delete h rooms sid roomId npcId"
| "step h rooms (sid, RollSend roomId payload now) = roll_send h rooms sid roomId payload now"
| "step h rooms (sid, Disconnect) = disconnect h rooms sid"

text \<open>Events are handled one after the other; the transport calls accumulate.\<close>

fun run :: "host \<Rightarrow> registry \<Rightarrow> (jstr \<times> event) list \<Rightarrow> (registry \<times> action list) option" where
  "run h rooms [] = Some (rooms, [])"
| "run h rooms (e # es) =
     (case step h rooms e of
        None \<Rightarrow> None
      | Some (rooms', out) \<Rightarrow>
          (case run h rooms' es of
             None \<Rightarrow> None
           | Some (rooms'', out') \<Rightarrow> Some (rooms'', out @ out')))"

text \<open>
  The registries the server can be in: it starts empty, and every event comes from a
  connection, whose id the transport never leaves empty. \<open>ok\<close> restricts the events
  considered, given the registry they arrive in.
\<close>

inductive reachable_by :: "host \<Rightarrow> (registry \<Rightarrow> jstr \<Rightarrow> event \<Rightarrow> bool) \<Rightarrow> registry \<Rightarrow> bool"
  for h :: host and ok :: "registry \<Rightarrow> jstr \<Rightarrow> event \<Rightarrow> bool" where
  init: "reachable_by h ok []"
| step: "reachable_by h ok rooms \<Longrightarrow> sid \<noteq> [] \<Longrightarrow> ok rooms sid ev
         \<Longrightarrow> step h rooms (sid, ev) = Some (rooms', out)
         \<Longrightarrow> reachable_by h ok rooms'"

definition any_event :: "registry \<Rightarrow> jstr \<Rightarrow> event \<Rightarrow> bool" where
  "any_event rooms sid ev = True"

definition reachable :: "host \<Rightarrow> registry \<Rightarrow> bool" where
  "reachable h rooms = reachable_by h any_event rooms"

text \<open>Every event except a \<^verbatim>\<open>room:join\<close> that a room's master sends for its own room.\<close>

definition no_own_join :: "registry \<Rightarrow> jstr \<Rightarrow> event \<Rightarrow> bool" where
  "no_own_join rooms sid ev =
     (case ev of
        RoomJoin roomId name \<Rightarrow>
          (case map_of rooms (safeRoomId roomId) of
             None \<Rightarrow> True
           | Some room \<Rightarrow> masterSocketId room \<noteq> Some sid)
      | _ \<Rightarrow> True)"

subsection \<open>The index, entry by entry\<close>

text \<open>
  What one pass of each loop of \<^verbatim>\<open>buildIndex\<close> pushes: for a player, the summary of the
  sheet stored under the player's id when that sheet is truthy, with the user's stored
  name where the summary has none; for an NPC, the summary of its document, with
  \<^verbatim>\<open>"NPC"\<close> where it has no name.
\<close>

definition player_entry :: "host \<Rightarrow> room \<Rightarrow> jstr \<times> user \<Rightarrow> entry option" where
  "player_entry h room = (\<lambda>(sid, u).
     let sh = lookup_doc (sheets room) sid in
     if truthy sh then
       map_option
         (\<lambda>s. \<lparr>e_id = sid, e_type = PlayerEntry,
               e_name = (if truthy (s_name s) then s_name s else JStr (u_name u)),
               e_hp = s_hp s, e_pd = s_pd s\<rparr>)
         (extractSummaryFromSheet h sh)
     else Some \<lparr>e_id = sid, e_type = PlayerEntry, e_name = JStr (u_name u),
                e_hp = None, e_pd = None\<rparr>)"

definition npc_entry :: "host \<Rightarrow> jstr \<times> jval \<Rightarrow> entry option" where
  "npc_entry h = (\<lambda>(nid, sh).
     map_option
       (\<lambda>s. \<lparr>e_id = nid, e_type = NpcEntry,
             e_name = (if truthy (s_name s) then s_name s else JStr (u16 ''NPC'')),
             e_hp = s_hp s, e_pd = s_pd s\<rparr>)
       (extractSummaryFromSheet h sh))"

definition is_player :: "jstr \<times> user \<Rightarrow> bool" where
  "is_player = (\<lambda>(sid, u). u_role u = Player)"

text \<open>
  The index as the specification words it: for a player, name, hp and pd are those of the
  sheet's summary whenever a sheet is stored under the player's id, and the user's stored
  name with null hp and pd otherwise; for an NPC, the summary with \<^verbatim>\<open>"NPC"\<close> for a
  missing name.
\<close>

definition claimed_player_entry :: "host \<Rightarrow> room \<Rightarrow> jstr \<times> user \<Rightarrow> entry option" where
  "claimed_player_entry h room = (\<lambda>(sid, u).
     case map_of (sheets room) sid of
       Some sh \<Rightarrow>
         map_option
           (\<lambda>s. \<lparr>e_id = sid, e_type = PlayerEntry, e_name = s_name s,
                 e_hp = s_hp s, e_pd = s_pd s\<rparr>)
           (extractSummaryFromSheet h sh)
     | None \<Rightarrow> Some \<lparr>e_id = sid, e_type = PlayerEntry, e_name = JStr (u_name u),
                      e_hp = None, e_pd = None\<rparr>)"

definition claimed_npc_entry :: "host \<Rightarrow> jstr \<times> jval \<Rightarrow> entry option" where
  "claimed_npc_entry h = (\<lambda>(nid, sh).
     map_option
       (\<lambda>s. \<lparr>e_id = nid, e_type = NpcEntry,
             e_name = (if s_name s = JNull then JStr (u16 ''NPC'') else s_name s),
             e_hp = s_hp s, e_pd = s_pd s\<rparr>)
       (extractSummaryFromSheet h sh))"

definition buildIndex_claimed :: "host \<Rightarrow> room \<Rightarrow> entry list option" where
  "buildIndex_claimed h room =
     those (map (claimed_player_entry h room) (filter is_player (users room))
            @ map (claimed_npc_entry h) (npcs room))"

subsection \<open>Invariants of the registry\<close>

definition master_role_ok :: "room \<Rightarrow> bool" where
  "master_role_ok room \<longleftrightarrow>
     (\<forall>m u. masterSocketId room = Some m \<longrightarrow> map_of (users room) m = Some u \<longrightarrow> u_role u = Master)"

text \<open>
  A master is a registered, non-empty connection id; the ledger holds at most 50 rolls;
  the index can be built. With \<open>strict\<close>, the master's entry has role Master.
\<close>

definition room_inv :: "host \<Rightarrow> bool \<Rightarrow> room \<Rightarrow> bool" where
  "room_inv h strict room \<longleftrightarrow>
     (\<forall>m. masterSocketId room = Some m \<longrightarrow> m \<noteq> [] \<and> map_of (users room) m \<noteq> None)
     \<and> (strict \<longrightarrow> master_role_ok room)
     \<and> length (rolls room) \<le> 50
     \<and> buildIndex h room \<noteq> None"

definition registry_inv :: "host \<Rightarrow> bool \<Rightarrow> registry \<Rightarrow> bool" where
  "registry_inv h strict rooms \<longleftrightarrow>
     distinct (map fst rooms)
     \<and> (\<forall>(id, room) \<in> set rooms. id \<noteq> [] \<and> room_inv h strict room)"

text \<open>
  A \<^verbatim>\<open>roll:send\<close> as an event, and the entry it appends in a room: none when the sender
  is not in the room's \<open>users\<close>.
\<close>

definition send_entry :: "room \<Rightarrow> jstr \<Rightarrow> jstr \<times> jval \<times> int \<Rightarrow> roll option" where
  "send_entry room roomId = (\<lambda>(sid, payload, now).
     map_option (\<lambda>user. roll_entry roomId sid user payload now) (map_of (users room) sid))"

definition send_event :: "jstr \<Rightarrow> jstr \<times> jval \<times> int \<Rightarrow> jstr \<times> event" where
  "send_event raw = (\<lambda>(sid, payload, now). (sid, RollSend raw payload now))"

text \<open>
  The room a connection leaves behind on \<^verbatim>\<open>disconnect\<close>: its entry in \<open>users\<close> is
  deleted, and \<open>masterSocketId\<close> is cleared when it was the master.
\<close>

definition leave :: "room \<Rightarrow> jstr \<Rightarrow> room" where
  "leave room sid =
     room\<lparr>users := AList.delete sid (users room),
          masterSocketId := (if masterSocketId room = Some sid then None else masterSocketId room)\<rparr>"

subsection \<open>Examples\<close>

text \<open>
  A host and a room for stating closed examples: the room is the one the server holds
  after \<^verbatim>\<open>m1\<close> created \<^verbatim>\<open>sala\<close>, \<^verbatim>\<open>p1\<close> joined it as Ana and saved the sheet
  \<^verbatim>\<open>{ hp_now: 3 }\<close>.
\<close>

definition example_host :: host where
  "example_host = \<lparr>StringToNumber = (\<lambda>s. NaN), ObjectToNumber = (\<lambda>v. None)\<rparr>"

definition example_room :: room where
  "example_room =
     \<lparr>masterSocketId = Some (u16 ''m1''),
      users = [(u16 ''m1'', \<lparr>u_name = u16 ''Mestre'', u_role = Master\<rparr>),
               (u16 ''p1'', \<lparr>u_name = u16 ''Ana'', u_role = Player\<rparr>)],
      sheets = [(u16 ''p1'', JObj [(u16 ''hp_now'', JNum (Fin 3))])],
      npcs = [], rolls = []\<rparr>"

text \<open>
  The room after \<^verbatim>\<open>m1\<close> created \<^verbatim>\<open>sala\<close> and then sent \<^verbatim>\<open>room:join\<close> for it.
\<close>

definition rejoined_room :: room where
  "rejoined_room =
     \<lparr>masterSocketId = Some (u16 ''m1''),
      users = [(u16 ''m1'', \<lparr>u_name = u16 ''Player'', u_role = Player\<rparr>)],
      sheets = [], npcs = [], rolls = []\<rparr>"

text \<open>Fifty-five rolls sent by \<^verbatim>\<open>p1\<close>, and the entry of the \<open>i\<close>-th.\<close>

definition example_sends :: "(jstr \<times> jval \<times> int) list" where
  "example_sends = map (\<lambda>i. (u16 ''p1'', JNum (Fin (of_nat i)), int i)) [0..<55]"

definition example_roll :: "nat \<Rightarrow> roll" where
  "example_roll i = roll_entry (u16 ''sala'') (u16 ''p1'') \<lparr>u_name = u16 ''Ana'', u_role = Player\<rparr>
                      (JNum (Fin (of_nat i))) (int i)"

text \<open>The example room after its master \<^verbatim>\<open>m1\<close> disconnected.\<close>

definition left_room :: room where
  "left_room =
     \<lparr>masterSocketId = None,
      users = [(u16 ''p1'', \<lparr>u_name = u16 ''Ana'', u_role = Player\<rparr>)],
      sheets = [(u16 ''p1'', JObj [(u16 ''hp_now'', JNum (Fin 3))])],
      npcs = [], rolls = []\<rparr>"



section \<open>Properties\<close>

subsection \<open>Sanitizing a room id\<close>

lemma dropWhile_both_ends:
  "xs = takeWhile P xs @ rev (dropWhile P (rev (dropWhile P xs))) @ rev (takeWhile P (rev (dropWhile P xs)))"
proof -
  let ?m = "dropWhile P xs"
  have "rev (rev ?m) = rev (takeWhile P (rev ?m) @ dropWhile P (rev ?m))"
    by (simp only: takeWhile_dropWhile_id)
  then have "?m = rev (dropWhile P (rev ?m)) @ rev (takeWhile P (rev ?m))"
    by (simp only: rev_rev_ident rev_append)
  moreover have "xs = takeWhile P xs @ ?m" by simp
  ultimately show ?thesis by metis
qed

lemma last_dropWhile:
  assumes "dropWhile P xs \<noteq> []"
  shows "last (dropWhile P xs) = last xs"
proof -
  have "last xs = last (takeWhile P xs @ dropWhile P xs)" by simp
  also have "\<dots> = last (dropWhile P xs)" using assms by (simp only: last_append if_False)
  finally show ?thesis by simp
qed

lemma trim_decomp:
  "\<exists>pre post. raw = pre @ trim raw @ post \<and> (\<forall>c\<in>set pre. isWhiteSpace c) \<and> (\<forall>c\<in>set post. isWhiteSpace c)"
proof -
  let ?a = "takeWhile isWhiteSpace raw"
  let ?b = "rev (takeWhile isWhiteSpace (rev (dropWhile isWhiteSpace raw)))"
  have "raw = ?a @ trim raw @ ?b"
    unfolding trim_def by (rule dropWhile_both_ends)
  moreover have "\<forall>c\<in>set ?a. isWhiteSpace c" by (auto dest: set_takeWhileD)
  moreover have "\<forall>c\<in>set ?b. isWhiteSpace c" by (auto dest: set_takeWhileD)
  ultimately show ?thesis by blast
qed

lemma trim_ends:
  assumes ne: "trim raw \<noteq> []"
  shows "\<not> isWhiteSpace (hd (trim raw)) \<and> \<not> isWhiteSpace (last (trim raw))"
proof -
  let ?m = "dropWhile isWhiteSpace raw"
  let ?d = "dropWhile isWhiteSpace (rev ?m)"
  have t: "trim raw = rev ?d" by (simp add: trim_def)
  have dne: "?d \<noteq> []" using ne t by simp
  have mne: "?m \<noteq> []"
  proof
    assume e: "?m = []"
    have "?d = []" unfolding e by simp
    with dne show False by (rule notE)
  qed
  have "last (trim raw) = hd ?d" using dne t by (simp add: last_rev)
  moreover have "\<not> isWhiteSpace (hd ?d)" using dne by (rule hd_dropWhile)
  moreover have "hd (trim raw) = last ?d" using dne t by (simp add: hd_rev)
  moreover have "last ?d = last (rev ?m)" using dne by (rule last_dropWhile)
  moreover have "last (rev ?m) = hd ?m" using mne by (simp add: last_rev)
  moreover have "\<not> isWhiteSpace (hd ?m)" using mne by (rule hd_dropWhile)
  ultimately show ?thesis by simp
qed

lemma safe_len: "length (safeRoomId raw) \<le> 32"
  unfolding safeRoomId_def
  by (rule order_trans[OF length_filter_le]) simp

lemma safe_none: "\<forall>c\<in>set raw. \<not> allowed c \<Longrightarrow> safeRoomId raw = []"
proof -
  assume a: "\<forall>c\<in>set raw. \<not> allowed c"
  obtain pre post where "raw = pre @ trim raw @ post" using trim_decomp by blast
  then have "set (trim raw) \<subseteq> set raw" by (metis Un_upper1 Un_upper2 set_append subset_trans)
  then have "\<forall>c\<in>set (take 32 (trim raw)). \<not> allowed c" using a by (meson in_set_takeD subsetD)
  then show ?thesis by (simp add: safeRoomId_def filter_empty_conv)
qed

text \<open>
  Claim C4. \<open>safeRoomId\<close> trims the surrounding whitespace (what it cuts off at both ends
  is whitespace, and what is left neither starts nor ends with it), keeps at most 32 code
  units and drops every one outside \<^verbatim>\<open>[A-Za-z0-9_-]\<close>: the result has at most 32 code
  units, all of them allowed, and is empty for an input without allowed characters. On an
  empty result \<^verbatim>\<open>room:create\<close> and \<^verbatim>\<open>room:join\<close> answer the caller with the invalid-id
  error and leave the registry as it was.
\<close>

theorem safeRoomId_sanitizes:
  "safeRoomId raw = filter allowed (take 32 (trim raw))
   \<and> (\<exists>pre post. raw = pre @ trim raw @ post
         \<and> (\<forall>c\<in>set pre. isWhiteSpace c) \<and> (\<forall>c\<in>set post. isWhiteSpace c))
   \<and> (trim raw \<noteq> [] \<longrightarrow> \<not> isWhiteSpace (hd (trim raw)) \<and> \<not> isWhiteSpace (last (trim raw)))
   \<and> length (safeRoomId raw) \<le> 32
   \<and> (\<forall>c\<in>set (safeRoomId raw). allowed c)
   \<and> ((\<forall>c\<in>set raw. \<not> allowed c) \<longrightarrow> safeRoomId raw = [])
   \<and> (safeRoomId raw = [] \<longrightarrow>
        step h rooms (sid, RoomCreate raw name) = Some (rooms, [Emit sid (ErrorMsg InvalidRoomId)])
      \<and> step h rooms (sid, RoomJoin raw name) = Some (rooms, [Emit sid (ErrorMsg InvalidRoomId)]))"
proof -
  have "\<forall>c\<in>set (safeRoomId raw). allowed c" by (simp add: safeRoomId_def)
  moreover have "safeRoomId raw = [] \<longrightarrow>
        step h rooms (sid, RoomCreate raw name) = Some (rooms, [Emit sid (ErrorMsg InvalidRoomId)])
      \<and> step h rooms (sid, RoomJoin raw name) = Some (rooms, [Emit sid (ErrorMsg InvalidRoomId)])"
    by (simp add: room_create_def room_join_def)
  ultimately show ?thesis
    using trim_decomp[of raw] trim_ends[of raw] safe_len[of raw] safe_none[of raw]
    by (simp add: safeRoomId_def)
qed

theorem safeRoomId_sanitizes_witness:
  "filter allowed (u16 '' /!? '') = []
   \<and> safeRoomId (u16 '' /!? '') = []
   \<and> step \<lparr>StringToNumber = (\<lambda>s. NaN), ObjectToNumber = (\<lambda>v. None)\<rparr> []
          (u16 ''s1'', RoomCreate (u16 '' /!? '') (u16 ''Ana''))
       = Some ([], [Emit (u16 ''s1'') (ErrorMsg InvalidRoomId)])
   \<and> step \<lparr>StringToNumber = (\<lambda>s. NaN), ObjectToNumber = (\<lambda>v. None)\<rparr> []
          (u16 ''s1'', RoomJoin (u16 '' /!? '') (u16 ''Ana''))
       = Some ([], [Emit (u16 ''s1'') (ErrorMsg InvalidRoomId)])"
proof -
  have none: "filter allowed (u16 '' /!? '') = []" by code_simp
  then have "\<forall>c\<in>set (u16 '' /!? ''). \<not> allowed c" by (simp only: filter_empty_conv)
  then show ?thesis
    using none safeRoomId_sanitizes[of "u16 '' /!? ''"
        "\<lparr>StringToNumber = (\<lambda>s. NaN), ObjectToNumber = (\<lambda>v. None)\<rparr>" "[]" "u16 ''s1''" "u16 ''Ana''"]
    by blast
qed

subsection \<open>The summary of a sheet\<close>

lemma extractSummary_examples:
  "extractSummaryFromSheet h (JObj [(u16 ''hp_now'', JStr (u16 ''12'')), (u16 ''pd_now'', JStr [])])
     = Some \<lparr>s_hp = Some (StringToNumber h (u16 ''12'')), s_pd = None, s_name = JNull\<rparr>"
  "extractSummaryFromSheet h
     (JObj [(u16 ''resources'', JObj [(u16 ''hp'', JNum (Fin 5)), (u16 ''pd'', JNum (Fin 3))])])
     = Some \<lparr>s_hp = Some (Fin 5), s_pd = Some (Fin 3), s_name = JNull\<rparr>"
  by (simp_all add: extractSummaryFromSheet_def numberOrNull_def coalesce_def u16_def)

text \<open>
  The summary's hp is null only when the value read is the empty string: a missing value
  is read as \<^verbatim>\<open>null\<close> and coerced like any other.
\<close>

lemma numberOrNull_None_iff:
  "numberOrNull h x = Some r \<Longrightarrow> r = None \<longleftrightarrow> x = JStr []"
  by (cases "x = JStr []") (auto simp add: numberOrNull_def)

lemma extractSummary_hp_null_iff:
  assumes "extractSummaryFromSheet h sheet = Some s"
  shows "s_hp s = None \<longleftrightarrow>
           coalesce (coalesce (get sheet (u16 ''hp_now''))
                              (get (get sheet (u16 ''resources'')) (u16 ''hp''))) JNull = JStr []"
proof -
  have "numberOrNull h (coalesce (coalesce (get sheet (u16 ''hp_now''))
                              (get (get sheet (u16 ''resources'')) (u16 ''hp''))) JNull) = Some (s_hp s)"
    using assms
    by (auto simp add: extractSummaryFromSheet_def Let_def split: option.splits)
  then show ?thesis by (rule numberOrNull_None_iff)
qed

text \<open>
  Claim C3, at the document \<^verbatim>\<open>{}\<close>, which has neither \<^verbatim>\<open>hp_now\<close> nor \<^verbatim>\<open>resources.hp\<close>:
  the value read is \<^verbatim>\<open>null\<close>, \<^verbatim>\<open>null !== ""\<close> holds and \<^verbatim>\<open>Number(null)\<close> is 0, so the
  summary has hp 0 and pd 0 where the claim has null.
\<close>

theorem extractSummary_empty_sheet:
  "extractSummaryFromSheet h (JObj [])
     = Some \<lparr>s_hp = Some (Fin 0), s_pd = Some (Fin 0), s_name = JNull\<rparr>"
  by (simp add: extractSummaryFromSheet_def numberOrNull_def coalesce_def)

subsection \<open>The index\<close>

lemma map_option_append_Nil: "map_option ((@) []) x = x"
  by (cases x) simp_all

lemma map_option_append_Cons: "map_option (\<lambda>x. a # b @ x) y = map_option ((@) (a # b)) y"
  by (cases y) simp_all

lemma those_append:
  "those (xs @ ys) = (case those xs of None \<Rightarrow> None | Some a \<Rightarrow> map_option ((@) a) (those ys))"
  by (induction xs)
     (auto split: option.splits
           simp: option.map_comp comp_def map_option_append_Nil map_option_append_Cons)

lemma those_map_total: "those (map f xs) \<noteq> None \<longleftrightarrow> (\<forall>x\<in>set xs. f x \<noteq> None)"
  by (induction xs) (auto split: option.splits)

lemma those_append_total: "those (xs @ ys) \<noteq> None \<longleftrightarrow> those xs \<noteq> None \<and> those ys \<noteq> None"
  by (auto simp add: those_append split: option.splits)

lemma index_players_those:
  "index_players h room us acc =
     map_option ((@) acc) (those (map (player_entry h room) (filter is_player us)))"
proof (induction us arbitrary: acc)
  case Nil
  then show ?case by simp
next
  case (Cons p us)
  obtain sid u where p: "p = (sid, u)" by (cases p)
  show ?case
  proof (cases "u_role u = Player")
    case False
    then show ?thesis using Cons.IH by (simp add: p is_player_def)
  next
    case True
    show ?thesis
    proof (cases "player_entry h room (sid, u)")
      case None
      then show ?thesis using True
        by (auto simp add: p is_player_def player_entry_def Let_def split: if_splits)
    next
      case (Some e)
      then show ?thesis using True Cons.IH
        by (auto simp add: p is_player_def player_entry_def Let_def option.map_comp comp_def split: if_splits)
    qed
  qed
qed

lemma index_npcs_those:
  "index_npcs h ns acc = map_option ((@) acc) (those (map (npc_entry h) ns))"
proof (induction ns arbitrary: acc)
  case Nil
  then show ?case by simp
next
  case (Cons p ns)
  obtain nid sh where p: "p = (nid, sh)" by (cases p)
  show ?case
  proof (cases "extractSummaryFromSheet h sh")
    case None
    then show ?thesis by (simp add: p npc_entry_def)
  next
    case (Some s)
    then show ?thesis using Cons.IH
      by (simp add: p npc_entry_def option.map_comp comp_def)
  qed
qed

lemma buildIndex_those:
  "buildIndex h room =
     those (map (player_entry h room) (filter is_player (users room))
            @ map (npc_entry h) (npcs room))"
  by (simp add: buildIndex_def index_players_those index_npcs_those those_append
           split: option.splits)

text \<open>
  Claim C9, amended. \<open>buildIndex\<close> returns one entry per user with role Player, in the
  order of \<open>users\<close>, then one entry per NPC, in the order of \<open>npcs\<close>; users with role
  Master have none. A player's entry takes hp and pd from the summary of the sheet stored
  under the player's id when that sheet is truthy, and its name from that summary when the
  summary has one, else the user's stored name; without a truthy sheet it has the stored
  name and null hp and pd. An NPC's entry is the summary of its document, named
  \<^verbatim>\<open>"NPC"\<close> when the summary has no name. The call throws exactly when one of these
  summaries does.
\<close>

theorem buildIndex_entries:
  "buildIndex h room =
     those (map (player_entry h room) (filter is_player (users room))
            @ map (npc_entry h) (npcs room))"
  by (rule buildIndex_those)

text \<open>
  The claim as worded takes the name from the summary whenever a sheet exists: for the
  player Ana, whose sheet \<^verbatim>\<open>{ hp_now: 3 }\<close> has no name, that is null, and the program
  answers Ana.
\<close>

theorem buildIndex_claimed_counterexample:
  "buildIndex example_host example_room
     = Some [\<lparr>e_id = u16 ''p1'', e_type = PlayerEntry, e_name = JStr (u16 ''Ana''),
              e_hp = Some (Fin 3), e_pd = Some (Fin 0)\<rparr>]
   \<and> buildIndex_claimed example_host example_room
     = Some [\<lparr>e_id = u16 ''p1'', e_type = PlayerEntry, e_name = JNull,
              e_hp = Some (Fin 3), e_pd = Some (Fin 0)\<rparr>]"
  by code_simp

text \<open>
  The sheet test is truthiness: under a stored sheet \<^verbatim>\<open>0\<close> the program lists the player
  with null hp and pd, where a summary of that sheet would have hp 0.
\<close>

lemma buildIndex_falsy_sheet:
  "buildIndex example_host (example_room\<lparr>sheets := [(u16 ''p1'', JNum (Fin 0))]\<rparr>)
     = Some [\<lparr>e_id = u16 ''p1'', e_type = PlayerEntry, e_name = JStr (u16 ''Ana''),
              e_hp = None, e_pd = None\<rparr>]"
  "buildIndex_claimed example_host (example_room\<lparr>sheets := [(u16 ''p1'', JNum (Fin 0))]\<rparr>)
     = Some [\<lparr>e_id = u16 ''p1'', e_type = PlayerEntry, e_name = JNull,
              e_hp = Some (Fin 0), e_pd = Some (Fin 0)\<rparr>]"
  by code_simp+

lemma buildIndex_total_iff:
  "buildIndex h room \<noteq> None \<longleftrightarrow>
     (\<forall>p \<in> set (users room). is_player p \<longrightarrow> player_entry h room p \<noteq> None)
     \<and> (\<forall>n \<in> set (npcs room). npc_entry h n \<noteq> None)"
  by (simp only: buildIndex_those those_append_total those_map_total) auto

subsection \<open>Requests of a connection that is not the master\<close>

text \<open>
  Claim C6. In a room whose master is another connection (or that has none),
  \<^verbatim>\<open>npc:create\<close>, \<^verbatim>\<open>npc:update\<close>, \<^verbatim>\<open>npc:delete\<close> and \<^verbatim>\<open>master:updateSheet\<close> make one
  transport call, an \<^verbatim>\<open>error:msg\<close> emitted on the caller's own socket, and leave the
  whole registry as it was.
\<close>

theorem non_master_mutation_rejected:
  assumes "map_of rooms (safeRoomId raw) = Some room"
      and "masterSocketId room \<noteq> Some sid"
  shows "step h rooms (sid, NpcCreate raw sheet rnd) = Some (rooms, [Emit sid (ErrorMsg OnlyMasterCreatesNpc)])
       \<and> step h rooms (sid, NpcUpdate raw npcId sheet) = Some (rooms, [Emit sid (ErrorMsg OnlyMasterEditsNpc)])
       \<and> step h rooms (sid, NpcDelete raw npcId) = Some (rooms, [Emit sid (ErrorMsg OnlyMasterDeletesNpc)])
       \<and> step h rooms (sid, MasterUpdateSheet raw owner sheet) = Some (rooms, [Emit sid (ErrorMsg OnlyMasterEditsSheets)])"
  using assms
  by (auto simp add: npc_create_def npc_update_def npc_delete_def master_updateSheet_def)

theorem non_master_mutation_rejected_witness:
  "map_of [(u16 ''sala'', example_room)] (safeRoomId (u16 '' sala '')) = Some example_room
   \<and> masterSocketId example_room \<noteq> Some (u16 ''p1'')
   \<and> step example_host [(u16 ''sala'', example_room)] (u16 ''p1'', NpcCreate (u16 '' sala '') (JObj []) (u16 ''k3x9'')) 
       = Some ([(u16 ''sala'', example_room)], [Emit (u16 ''p1'') (ErrorMsg OnlyMasterCreatesNpc)])
   \<and> step example_host [(u16 ''sala'', example_room)] (u16 ''p1'', NpcUpdate (u16 '' sala '') (u16 ''npc_k3x9'') (JObj [])) 
       = Some ([(u16 ''sala'', example_room)], [Emit (u16 ''p1'') (ErrorMsg OnlyMasterEditsNpc)])
   \<and> step example_host [(u16 ''sala'', example_room)] (u16 ''p1'', NpcDelete (u16 '' sala '') (u16 ''npc_k3x9'')) 
       = Some ([(u16 ''sala'', example_room)], [Emit (u16 ''p1'') (ErrorMsg OnlyMasterDeletesNpc)])
   \<and> step example_host [(u16 ''sala'', example_room)] (u16 ''p1'', MasterUpdateSheet (u16 '' sala '') (u16 ''p1'') (JObj [])) 
       = Some ([(u16 ''sala'', example_room)], [Emit (u16 ''p1'') (ErrorMsg OnlyMasterEditsSheets)])"
proof -
  have a: "map_of [(u16 ''sala'', example_room)] (safeRoomId (u16 '' sala '')) = Some example_room"
    by code_simp
  have b: "masterSocketId example_room \<noteq> Some (u16 ''p1'')"
    by code_simp
  show ?thesis
    using a b non_master_mutation_rejected[OF a b, of example_host "JObj []" "u16 ''k3x9''" "u16 ''npc_k3x9''" "u16 ''p1''"]
    by simp
qed

text \<open>
  Claim C7. For a connection that is not the master of the room it names (or names no
  room), \<^verbatim>\<open>room:requestIndex\<close> and \<^verbatim>\<open>npc:request\<close> make no transport call at all and
  leave the registry as it was.
\<close>

theorem non_master_reads_ignored:
  assumes "case map_of rooms (safeRoomId raw) of None \<Rightarrow> True | Some room \<Rightarrow> masterSocketId room \<noteq> Some sid"
  shows "step h rooms (sid, RequestIndex raw) = Some (rooms, [])
       \<and> step h rooms (sid, NpcRequest raw npcId) = Some (rooms, [])"
  using assms
  by (auto simp add: room_requestIndex_def npc_request_def split: option.splits)

theorem non_master_reads_ignored_witness:
  "map_of [(u16 ''sala'', example_room)] (safeRoomId (u16 ''sala'')) = Some example_room
   \<and> masterSocketId example_room \<noteq> Some (u16 ''p1'')
   \<and> step example_host [(u16 ''sala'', example_room)] (u16 ''p1'', RequestIndex (u16 ''sala''))
       = Some ([(u16 ''sala'', example_room)], [])
   \<and> step example_host [(u16 ''sala'', example_room)] (u16 ''p1'', NpcRequest (u16 ''sala'') (u16 ''npc_k3x9''))
       = Some ([(u16 ''sala'', example_room)], [])"
proof -
  have a: "map_of [(u16 ''sala'', example_room)] (safeRoomId (u16 ''sala'')) = Some example_room"
    by code_simp
  have b: "masterSocketId example_room \<noteq> Some (u16 ''p1'')"
    by code_simp
  have c: "case map_of [(u16 ''sala'', example_room)] (safeRoomId (u16 ''sala'')) of
             None \<Rightarrow> True | Some room \<Rightarrow> masterSocketId room \<noteq> Some (u16 ''p1'')"
    using a b by simp
  show ?thesis
    using a b non_master_reads_ignored[OF c, of example_host "u16 ''npc_k3x9''"]
    by simp
qed

subsection \<open>Invariants of the reachable registries\<close>

lemma set_update_subset: "set (AList.update k v al) \<subseteq> insert (k, v) (set al)"
  by (induction al) auto

lemma set_delete_subset: "set (AList.delete k al) \<subseteq> set al"
  by (auto simp add: AList.delete_eq)

lemma inv_lookup:
  assumes "registry_inv h strict rooms" and "map_of rooms rid = Some room"
  shows "rid \<noteq> [] \<and> room_inv h strict room"
proof -
  have "(rid, room) \<in> set rooms" using assms(2) by (rule map_of_SomeD)
  then show ?thesis using assms(1) by (auto simp add: registry_inv_def)
qed

lemma inv_update:
  assumes "registry_inv h strict rooms" and "rid \<noteq> []" and "room_inv h strict room'"
  shows "registry_inv h strict (AList.update rid room' rooms)"
proof -
  have "distinct (map fst (AList.update rid room' rooms))"
    using assms(1) by (simp add: registry_inv_def distinct_update)
  moreover have "\<forall>(k, r) \<in> set (AList.update rid room' rooms). k \<noteq> [] \<and> room_inv h strict r"
    using assms set_update_subset[of rid room' rooms] by (auto simp add: registry_inv_def)
  ultimately show ?thesis by (simp add: registry_inv_def)
qed

lemma inv_delete:
  assumes "registry_inv h strict rooms"
  shows "registry_inv h strict (AList.delete rid rooms)"
proof -
  have "distinct (map fst (AList.delete rid rooms))"
    using assms by (simp add: registry_inv_def distinct_delete)
  moreover have "\<forall>(k, r) \<in> set (AList.delete rid rooms). k \<noteq> [] \<and> room_inv h strict r"
    using assms set_delete_subset[of rid rooms] by (auto simp add: registry_inv_def)
  ultimately show ?thesis by (simp add: registry_inv_def)
qed

lemma player_entry_cong: "sheets room' = sheets room \<Longrightarrow> player_entry h room' = player_entry h room"
  by (simp add: player_entry_def)

lemma buildIndex_cong:
  assumes "users room' = users room" and "sheets room' = sheets room" and "npcs room' = npcs room"
  shows "buildIndex h room' = buildIndex h room"
proof -
  have "player_entry h room' = player_entry h room" using assms(2) by (rule player_entry_cong)
  then show ?thesis using assms(1,3) by (simp add: buildIndex_those)
qed

lemma buildIndex_new_room: "buildIndex h new_room = Some []"
  by (simp add: buildIndex_def new_room_def)

lemma room_inv_new_room: "room_inv h strict new_room"
  by (simp add: room_inv_def buildIndex_new_room) (simp add: new_room_def master_role_ok_def)

lemma emitIndex_Some: "emitIndex h room = Some ix \<Longrightarrow> buildIndex h room \<noteq> None"
  by (auto simp add: emitIndex_def)

lemma length_push_roll: "length rs \<le> 50 \<Longrightarrow> length (push_roll rs e) \<le> 50"
  by (simp add: push_roll_def Let_def)


lemma room_create_cases:
  assumes st: "room_create h rooms sid raw name = Some (rooms', out)"
  obtains (invalid) "safeRoomId raw = []" "rooms' = rooms"
  | (taken) rooms1 room where "safeRoomId raw \<noteq> []" "ensureRoom rooms (safeRoomId raw) = (rooms1, room)" "rooms' = rooms1"
  | (created) rooms1 room ix where "safeRoomId raw \<noteq> []" "ensureRoom rooms (safeRoomId raw) = (rooms1, room)"
      "emitIndex h (room\<lparr>masterSocketId := Some sid,
                           users := AList.update sid
                             \<lparr>u_name = take 40 (if name \<noteq> [] then name else u16 ''Mestre''),
                              u_role = Master\<rparr> (users room)\<rparr>) = Some ix"
      "rooms' = AList.update (safeRoomId raw) (room\<lparr>masterSocketId := Some sid,
                           users := AList.update sid
                             \<lparr>u_name = take 40 (if name \<noteq> [] then name else u16 ''Mestre''),
                              u_role = Master\<rparr> (users room)\<rparr>) rooms1"
  using st unfolding room_create_def Let_def
  by (cases "ensureRoom rooms (safeRoomId raw)") (simp split: if_splits option.splits)


lemma room_create_inv:
  assumes inv: "registry_inv h strict rooms" and sid: "sid \<noteq> []"
      and st: "room_create h rooms sid raw name = Some (rooms', out)"
  shows "registry_inv h strict rooms'"
proof -
  have ens: "registry_inv h strict rooms1 \<and> room_inv h strict room"
    if ne: "safeRoomId raw \<noteq> []" and er: "ensureRoom rooms (safeRoomId raw) = (rooms1, room)"
    for rooms1 room
  proof (cases "map_of rooms (safeRoomId raw)")
    case None
    then have "rooms1 = AList.update (safeRoomId raw) new_room rooms" "room = new_room"
      using er by (simp_all add: ensureRoom_def)
    then show ?thesis using inv ne by (simp add: inv_update room_inv_new_room)
  next
    case (Some r)
    then have "rooms1 = rooms" "room = r" using er by (simp_all add: ensureRoom_def)
    then show ?thesis using inv Some inv_lookup by blast
  qed
  from st show ?thesis
  proof (cases rule: room_create_cases)
    case invalid
    then show ?thesis using inv by simp
  next
    case (taken rooms1 room)
    then show ?thesis using ens by simp
  next
    case (created rooms1 room ix)
    let ?room' = "room\<lparr>masterSocketId := Some sid,
                           users := AList.update sid
                             \<lparr>u_name = take 40 (if name \<noteq> [] then name else u16 ''Mestre''),
                              u_role = Master\<rparr> (users room)\<rparr>"
    have r1: "registry_inv h strict rooms1" "room_inv h strict room"
      using ens[OF created(1,2)] by simp_all
    have "room_inv h strict ?room'"
      using r1(2) sid emitIndex_Some[OF created(3)]
      by (simp add: room_inv_def update_conv' master_role_ok_def)
    then show ?thesis using r1(1) created(1,4) by (simp add: inv_update)
  qed
qed

lemma room_join_cases:
  assumes st: "room_join h rooms sid raw name = Some (rooms', out)"
  obtains (rejected) "rooms' = rooms"
  | (joined) room ix where "safeRoomId raw \<noteq> []" "map_of rooms (safeRoomId raw) = Some room"
      "truthy_id (masterSocketId room)"
      "emitIndex h (room\<lparr>users := AList.update sid
                                 \<lparr>u_name = take 40 (if name \<noteq> [] then name else u16 ''Player''),
                                  u_role = Player\<rparr> (users room)\<rparr>) = Some ix"
      "rooms' = AList.update (safeRoomId raw) (room\<lparr>users := AList.update sid
                                 \<lparr>u_name = take 40 (if name \<noteq> [] then name else u16 ''Player''),
                                  u_role = Player\<rparr> (users room)\<rparr>) rooms"
  using st unfolding room_join_def Let_def
  by (simp split: if_splits option.splits)

lemma room_join_inv:
  assumes inv: "registry_inv h strict rooms" and sid: "sid \<noteq> []"
      and ok: "strict \<Longrightarrow> no_own_join rooms sid (RoomJoin raw name)"
      and st: "room_join h rooms sid raw name = Some (rooms', out)"
  shows "registry_inv h strict rooms'"
  using st
proof (cases rule: room_join_cases)
  case rejected
  then show ?thesis using inv by simp
next
  case (joined room ix)
  let ?room' = "room\<lparr>users := AList.update sid
                                 \<lparr>u_name = take 40 (if name \<noteq> [] then name else u16 ''Player''),
                                  u_role = Player\<rparr> (users room)\<rparr>"
  have r: "room_inv h strict room" using inv_lookup[OF inv joined(2)] by simp
  have own: "strict \<Longrightarrow> masterSocketId room \<noteq> Some sid"
    using ok joined(2) by (simp add: no_own_join_def)
  have "room_inv h strict ?room'"
    using r own emitIndex_Some[OF joined(4)]
    by (auto simp add: room_inv_def update_conv' master_role_ok_def)
  then show ?thesis using inv joined(1,5) by (simp add: inv_update)
qed

lemma inv_update_room:
  assumes inv: "registry_inv h strict rooms" and look: "map_of rooms rid = Some room"
      and same: "masterSocketId room' = masterSocketId room" "users room' = users room"
      and len: "length (rolls room') \<le> 50" and ix: "buildIndex h room' \<noteq> None"
  shows "registry_inv h strict (AList.update rid room' rooms)"
proof -
  have r: "rid \<noteq> []" "room_inv h strict room" using inv_lookup[OF inv look] by simp_all
  have "room_inv h strict room'"
    using r(2) same len ix by (simp add: room_inv_def master_role_ok_def)
  then show ?thesis using inv r(1) by (simp add: inv_update)
qed

lemma lookup_doc_update:
  "lookup_doc (AList.update k v al) k' = (if k' = k then v else lookup_doc al k')"
  by (simp add: lookup_doc_def update_conv')

lemma buildIndex_sheet_update:
  assumes ix: "buildIndex h room \<noteq> None" and ok: "extractSummaryFromSheet h sheet \<noteq> None"
  shows "buildIndex h (room\<lparr>sheets := AList.update sid sheet (sheets room)\<rparr>) \<noteq> None"
proof -
  let ?room' = "room\<lparr>sheets := AList.update sid sheet (sheets room)\<rparr>"
  have "player_entry h ?room' p \<noteq> None" if "p \<in> set (users room)" "is_player p" for p
  proof -
    obtain k u where p: "p = (k, u)" by (cases p)
    have old: "player_entry h room (k, u) \<noteq> None"
      using ix[unfolded buildIndex_total_iff] that p by blast
    show ?thesis
    proof (cases "k = sid")
      case True
      then show ?thesis using ok by (simp add: p player_entry_def lookup_doc_update)
    next
      case False
      then show ?thesis using old by (simp add: p player_entry_def lookup_doc_update)
    qed
  qed
  moreover have "npcs ?room' = npcs room" "users ?room' = users room" by simp_all
  ultimately show ?thesis using ix unfolding buildIndex_total_iff by simp
qed

lemma buildIndex_users_delete:
  assumes ix: "buildIndex h room \<noteq> None"
  shows "buildIndex h (room\<lparr>users := AList.delete sid (users room)\<rparr>) \<noteq> None"
proof -
  let ?room' = "room\<lparr>users := AList.delete sid (users room)\<rparr>"
  have pe: "player_entry h ?room' = player_entry h room" by (rule player_entry_cong) simp
  have "set (users ?room') \<subseteq> set (users room)" using set_delete_subset[of sid "users room"] by simp
  then show ?thesis using ix unfolding buildIndex_total_iff pe by auto
qed

lemma sheet_save_inv:
  assumes inv: "registry_inv h strict rooms"
      and st: "sheet_save h rooms sid raw sheet = Some (rooms', out)"
  shows "registry_inv h strict rooms'"
proof (cases "map_of rooms (safeRoomId raw)")
  case None
  then show ?thesis using inv st by (simp add: sheet_save_def)
next
  case (Some room)
  let ?room' = "room\<lparr>sheets := AList.update sid sheet (sheets room)\<rparr>"
  show ?thesis
  proof (cases "map_of (users room) sid = None")
    case True
    then show ?thesis using inv st Some by (simp add: sheet_save_def)
  next
    case False
    from st Some False obtain smry where sm: "extractSummaryFromSheet h sheet = Some smry"
      by (auto simp add: sheet_save_def Let_def split: option.splits)
    have r: "room_inv h strict room" using inv_lookup[OF inv Some] by simp
    have ix: "buildIndex h ?room' \<noteq> None"
      using r sm by (intro buildIndex_sheet_update) (simp_all add: room_inv_def)
    have "rooms' = AList.update (safeRoomId raw) ?room' rooms"
      using st Some False sm by (auto simp add: sheet_save_def Let_def split: option.splits if_splits)
    moreover have "registry_inv h strict (AList.update (safeRoomId raw) ?room' rooms)"
      using inv Some _ _ _ ix by (rule inv_update_room) (use r in \<open>simp_all add: room_inv_def\<close>)
    ultimately show ?thesis by simp
  qed
qed

lemma master_updateSheet_inv:
  assumes inv: "registry_inv h strict rooms"
      and st: "master_updateSheet h rooms sid raw owner sheet = Some (rooms', out)"
  shows "registry_inv h strict rooms'"
proof (cases "map_of rooms (safeRoomId raw)")
  case None
  then show ?thesis using inv st by (simp add: master_updateSheet_def)
next
  case (Some room)
  have r: "room_inv h strict room" using inv_lookup[OF inv Some] by simp
  let ?room' = "room\<lparr>sheets := AList.update owner sheet (sheets room)\<rparr>"
  show ?thesis
  proof (cases "Some sid \<noteq> masterSocketId room")
    case True
    then show ?thesis using inv st Some by (simp add: master_updateSheet_def)
  next
    case False
    from st Some False obtain ix where ix: "emitIndex h ?room' = Some ix"
      and rooms': "rooms' = AList.update (safeRoomId raw) ?room' rooms"
      by (auto simp add: master_updateSheet_def Let_def split: option.splits)
    have "registry_inv h strict (AList.update (safeRoomId raw) ?room' rooms)"
      using inv Some _ _ _ emitIndex_Some[OF ix]
      by (rule inv_update_room) (use r in \<open>simp_all add: room_inv_def\<close>)
    then show ?thesis using rooms' by simp
  qed
qed

lemma npc_create_inv:
  assumes inv: "registry_inv h strict rooms"
      and st: "npc_create h rooms sid raw sheet rnd = Some (rooms', out)"
  shows "registry_inv h strict rooms'"
proof (cases "map_of rooms (safeRoomId raw)")
  case None
  then show ?thesis using inv st by (simp add: npc_create_def)
next
  case (Some room)
  have r: "room_inv h strict room" using inv_lookup[OF inv Some] by simp
  let ?room' = "room\<lparr>npcs := AList.update (u16 ''npc_'' @ rnd)
                   (if truthy sheet then sheet else JObj []) (npcs room)\<rparr>"
  show ?thesis
  proof (cases "Some sid \<noteq> masterSocketId room")
    case True
    then show ?thesis using inv st Some by (simp add: npc_create_def)
  next
    case False
    from st Some False obtain ix where ix: "emitIndex h ?room' = Some ix"
      and rooms': "rooms' = AList.update (safeRoomId raw) ?room' rooms"
      by (auto simp add: npc_create_def Let_def split: option.splits)
    have "registry_inv h strict (AList.update (safeRoomId raw) ?room' rooms)"
      using inv Some _ _ _ emitIndex_Some[OF ix]
      by (rule inv_update_room) (use r in \<open>simp_all add: room_inv_def\<close>)
    then show ?thesis using rooms' by simp
  qed
qed

lemma npc_update_inv:
  assumes inv: "registry_inv h strict rooms"
      and st: "npc_update h rooms sid raw npcId sheet = Some (rooms', out)"
  shows "registry_inv h strict rooms'"
proof (cases "map_of rooms (safeRoomId raw)")
  case None
  then show ?thesis using inv st by (simp add: npc_update_def)
next
  case (Some room)
  have r: "room_inv h strict room" using inv_lookup[OF inv Some] by simp
  let ?room' = "room\<lparr>npcs := AList.update npcId sheet (npcs room)\<rparr>"
  show ?thesis
  proof (cases "Some sid \<noteq> masterSocketId room \<or> \<not> truthy (lookup_doc (npcs room) npcId)")
    case True
    then show ?thesis using inv st Some by (auto simp add: npc_update_def split: if_splits)
  next
    case False
    from st Some False obtain ix where ix: "emitIndex h ?room' = Some ix"
      and rooms': "rooms' = AList.update (safeRoomId raw) ?room' rooms"
      by (auto simp add: npc_update_def Let_def split: option.splits)
    have "registry_inv h strict (AList.update (safeRoomId raw) ?room' rooms)"
      using inv Some _ _ _ emitIndex_Some[OF ix]
      by (rule inv_update_room) (use r in \<open>simp_all add: room_inv_def\<close>)
    then show ?thesis using rooms' by simp
  qed
qed

lemma npc_delete_inv:
  assumes inv: "registry_inv h strict rooms"
      and st: "npc_delete h rooms sid raw npcId = Some (rooms', out)"
  shows "registry_inv h strict rooms'"
proof (cases "map_of rooms (safeRoomId raw)")
  case None
  then show ?thesis using inv st by (simp add: npc_delete_def)
next
  case (Some room)
  have r: "room_inv h strict room" using inv_lookup[OF inv Some] by simp
  let ?room' = "room\<lparr>npcs := AList.delete npcId (npcs room)\<rparr>"
  show ?thesis
  proof (cases "Some sid \<noteq> masterSocketId room")
    case True
    then show ?thesis using inv st Some by (simp add: npc_delete_def)
  next
    case False
    from st Some False obtain ix where ix: "emitIndex h ?room' = Some ix"
      and rooms': "rooms' = AList.update (safeRoomId raw) ?room' rooms"
      by (auto simp add: npc_delete_def Let_def split: option.splits)
    have "registry_inv h strict (AList.update (safeRoomId raw) ?room' rooms)"
      using inv Some _ _ _ emitIndex_Some[OF ix]
      by (rule inv_update_room) (use r in \<open>simp_all add: room_inv_def\<close>)
    then show ?thesis using rooms' by simp
  qed
qed

lemma roll_send_inv:
  assumes inv: "registry_inv h strict rooms"
      and st: "roll_send h rooms sid raw payload now = Some (rooms', out)"
  shows "registry_inv h strict rooms'"
proof (cases "map_of rooms (safeRoomId raw)")
  case None
  then show ?thesis using inv st by (simp add: roll_send_def)
next
  case (Some room)
  have r: "room_inv h strict room" using inv_lookup[OF inv Some] by simp
  show ?thesis
  proof (cases "map_of (users room) sid")
    case None
    then show ?thesis using inv st Some by (simp add: roll_send_def)
  next
    case (Some user)
    let ?room' = "room\<lparr>rolls := push_roll (rolls room) (roll_entry (safeRoomId raw) sid user payload now)\<rparr>"
    have rooms': "rooms' = AList.update (safeRoomId raw) ?room' rooms"
      using st \<open>map_of rooms (safeRoomId raw) = Some room\<close> Some
      by (simp add: roll_send_def Let_def)
    have "buildIndex h ?room' = buildIndex h room" by (rule buildIndex_cong) simp_all
    then have ix: "buildIndex h ?room' \<noteq> None" using r by (simp add: room_inv_def)
    have len: "length (rolls ?room') \<le> 50" using r by (simp add: room_inv_def length_push_roll)
    have "registry_inv h strict (AList.update (safeRoomId raw) ?room' rooms)"
      using inv \<open>map_of rooms (safeRoomId raw) = Some room\<close> _ _ len ix
      by (rule inv_update_room) simp_all
    then show ?thesis using rooms' by simp
  qed
qed

lemma reads_inv:
  "room_requestIndex h rooms sid raw = Some (rooms', out) \<Longrightarrow> rooms' = rooms"
  "master_requestSheet h rooms sid raw owner = Some (rooms', out) \<Longrightarrow> rooms' = rooms"
  "npc_request h rooms sid raw npcId = Some (rooms', out) \<Longrightarrow> rooms' = rooms"
  by (auto simp add: room_requestIndex_def master_requestSheet_def npc_request_def Let_def
           split: option.splits if_splits)

lemma leave_fields:
  "users (leave room sid) = AList.delete sid (users room)"
  "masterSocketId (leave room sid) = (if masterSocketId room = Some sid then None else masterSocketId room)"
  "sheets (leave room sid) = sheets room"
  "npcs (leave room sid) = npcs room"
  "rolls (leave room sid) = rolls room"
  by (simp_all add: leave_def)

lemma buildIndex_leave:
  assumes "buildIndex h room \<noteq> None"
  shows "buildIndex h (leave room sid) \<noteq> None"
proof -
  have "buildIndex h (leave room sid) = buildIndex h (room\<lparr>users := AList.delete sid (users room)\<rparr>)"
    by (rule buildIndex_cong) (simp_all add: leave_fields)
  then show ?thesis using buildIndex_users_delete[OF assms] by simp
qed

lemma room_inv_leave:
  assumes r: "room_inv h strict room"
  shows "room_inv h strict (leave room sid)"
proof -
  have m: "\<forall>m. masterSocketId (leave room sid) = Some m
             \<longrightarrow> m \<noteq> [] \<and> map_of (users (leave room sid)) m \<noteq> None"
    using r by (auto simp add: room_inv_def leave_fields delete_conv' split: if_splits)
  have s: "strict \<longrightarrow> master_role_ok (leave room sid)"
    using r by (auto simp add: room_inv_def master_role_ok_def leave_fields delete_conv' split: if_splits)
  have l: "length (rolls (leave room sid)) \<le> 50" using r by (simp add: room_inv_def leave_fields)
  have b: "buildIndex h (leave room sid) \<noteq> None" using r by (simp add: room_inv_def buildIndex_leave)
  show ?thesis unfolding room_inv_def using m s l b by blast
qed

lemma disconnect_scan_found:
  assumes "map_of (users room) sid \<noteq> None"
  shows "disconnect_scan h rooms ((roomId, room) # rest) sid =
     (case (if truthy_id (masterSocketId (leave room sid))
            then map_option (\<lambda>ix. [ix]) (emitIndex h (leave room sid)) else Some []) of
        None \<Rightarrow> None
      | Some out2 \<Rightarrow>
          Some (if users (leave room sid) = [] then AList.delete roomId rooms
                else AList.update roomId (leave room sid) rooms,
                (if masterSocketId room = Some sid
                 then [To (Some roomId) (ErrorMsg MasterDisconnected)] else []) @ out2))"
  using assms by (simp add: leave_def Let_def split: option.splits)

lemma disconnect_scan_skip:
  assumes "map_of (users room) sid = None"
  shows "disconnect_scan h rooms ((roomId, room) # rest) sid = disconnect_scan h rooms rest sid"
  using assms by simp

lemma disconnect_scan_inv:
  assumes inv: "registry_inv h strict rooms"
  shows "set rest \<subseteq> set rooms \<Longrightarrow> disconnect_scan h rooms rest sid = Some (rooms', out)
         \<Longrightarrow> registry_inv h strict rooms'"
proof (induction rest)
  case Nil
  then show ?case using inv by simp
next
  case (Cons p rest)
  obtain roomId room where p: "p = (roomId, room)" by (cases p)
  show ?case
  proof (cases "map_of (users room) sid = None")
    case True
    then show ?thesis using Cons p by (simp del: disconnect_scan.simps add: disconnect_scan_skip)
  next
    case False
    have mem: "(roomId, room) \<in> set rooms" using Cons.prems(1) p by simp
    then have r: "roomId \<noteq> []" "room_inv h strict room" using inv by (auto simp add: registry_inv_def)
    have r2: "room_inv h strict (leave room sid)" using r(2) by (rule room_inv_leave)
    have "rooms' = AList.delete roomId rooms \<or> rooms' = AList.update roomId (leave room sid) rooms"
      using Cons.prems(2) unfolding p disconnect_scan_found[OF False]
      by (auto split: option.splits if_splits)
    then show ?thesis using inv r(1) r2 inv_delete inv_update by blast
  qed
qed

lemma disconnect_inv:
  "registry_inv h strict rooms \<Longrightarrow> disconnect h rooms sid = Some (rooms', out)
   \<Longrightarrow> registry_inv h strict rooms'"
  unfolding disconnect_def by (rule disconnect_scan_inv[where rest = rooms]) simp_all

lemma step_inv:
  assumes inv: "registry_inv h strict rooms" and sid: "sid \<noteq> []"
      and ok: "strict \<Longrightarrow> no_own_join rooms sid ev"
      and st: "step h rooms (sid, ev) = Some (rooms', out)"
  shows "registry_inv h strict rooms'"
proof (cases ev)
  case (RoomCreate raw name)
  then show ?thesis using inv sid st room_create_inv by simp
next
  case (RoomJoin raw name)
  then show ?thesis using inv sid st ok room_join_inv[of h strict rooms sid raw name rooms' out] by simp
next
  case (RequestIndex raw)
  then show ?thesis using inv st reads_inv(1) by fastforce
next
  case (SheetSave raw sheet)
  then show ?thesis using inv st sheet_save_inv by simp
next
  case (MasterRequestSheet raw owner)
  then show ?thesis using inv st reads_inv(2) by fastforce
next
  case (MasterUpdateSheet raw owner sheet)
  then show ?thesis using inv st master_updateSheet_inv by simp
next
  case (NpcCreate raw sheet rnd)
  then show ?thesis using inv st npc_create_inv by simp
next
  case (NpcRequest raw npcId)
  then show ?thesis using inv st reads_inv(3) by fastforce
next
  case (NpcUpdate raw npcId sheet)
  then show ?thesis using inv st npc_update_inv by simp
next
  case (NpcDelete raw npcId)
  then show ?thesis using inv st npc_delete_inv by simp
next
  case (RollSend raw payload now)
  then show ?thesis using inv st roll_send_inv by simp
next
  case Disconnect
  then show ?thesis using inv st disconnect_inv by simp
qed

lemma registry_inv_empty: "registry_inv h strict []"
  by (simp add: registry_inv_def)

lemma reachable_by_inv:
  assumes "reachable_by h ok rooms" and "\<And>rs sid ev. strict \<Longrightarrow> ok rs sid ev \<Longrightarrow> no_own_join rs sid ev"
  shows "registry_inv h strict rooms"
  using assms(1)
proof (induction rule: reachable_by.induct)
  case init
  show ?case by (rule registry_inv_empty)
next
  case (step rooms sid ev rooms' out)
  show ?case using step.IH step.hyps(2) _ step.hyps(4)
    by (rule step_inv) (use assms(2) step.hyps(3) in blast)
qed

lemma reachable_inv: "reachable h rooms \<Longrightarrow> registry_inv h False rooms"
  unfolding reachable_def by (rule reachable_by_inv) simp_all

lemma reachable_strict_inv: "reachable_by h no_own_join rooms \<Longrightarrow> registry_inv h True rooms"
  by (rule reachable_by_inv) simp_all

lemma reachable_by_weaken: "reachable_by h ok rooms \<Longrightarrow> reachable h rooms"
  unfolding reachable_def
proof (induction rule: reachable_by.induct)
  case init
  show ?case by (rule reachable_by.init)
next
  case (step rooms sid ev rooms' out)
  show ?case using step.IH step.hyps(2) _ step.hyps(4)
    by (rule reachable_by.step) (simp add: any_event_def)
qed

lemma step_fst:
  assumes "map_option fst (step h rooms e) = Some rooms'"
  obtains out where "step h rooms e = Some (rooms', out)"
  using assms by (cases "step h rooms e") auto

lemma reachable_by_step_fst:
  assumes "reachable_by h ok rooms" and "sid \<noteq> []" and "ok rooms sid ev"
      and "map_option fst (step h rooms (sid, ev)) = Some rooms'"
  shows "reachable_by h ok rooms'"
proof -
  obtain out where "step h rooms (sid, ev) = Some (rooms', out)" using assms(4) by (rule step_fst)
  with assms(1-3) show ?thesis by (rule reachable_by.step)
qed

lemma example_room_reachable:
  "reachable_by example_host no_own_join [(u16 ''sala'', example_room)]"
proof -
  let ?r1 = "\<lparr>masterSocketId = Some (u16 ''m1''),
      users = [(u16 ''m1'', \<lparr>u_name = u16 ''Mestre'', u_role = Master\<rparr>)],
      sheets = [], npcs = [], rolls = []\<rparr>"
  let ?r2 = "\<lparr>masterSocketId = Some (u16 ''m1''),
      users = [(u16 ''m1'', \<lparr>u_name = u16 ''Mestre'', u_role = Master\<rparr>),
               (u16 ''p1'', \<lparr>u_name = u16 ''Ana'', u_role = Player\<rparr>)],
      sheets = [], npcs = [], rolls = []\<rparr>"
  have 0: "reachable_by example_host no_own_join []" by (rule reachable_by.init)
  have 1: "reachable_by example_host no_own_join [(u16 ''sala'', ?r1)]"
    using 0
  proof (rule reachable_by_step_fst)
    show "u16 ''m1'' \<noteq> []" by code_simp
    show "no_own_join [] (u16 ''m1'') (RoomCreate (u16 ''sala'') [])" by code_simp
    show "map_option fst (step example_host [] (u16 ''m1'', RoomCreate (u16 ''sala'') []))
            = Some [(u16 ''sala'', ?r1)]" by code_simp
  qed
  have 2: "reachable_by example_host no_own_join [(u16 ''sala'', ?r2)]"
    using 1
  proof (rule reachable_by_step_fst)
    show "u16 ''p1'' \<noteq> []" by code_simp
    show "no_own_join [(u16 ''sala'', ?r1)] (u16 ''p1'') (RoomJoin (u16 ''sala'') (u16 ''Ana''))" by code_simp
    show "map_option fst (step example_host [(u16 ''sala'', ?r1)] (u16 ''p1'', RoomJoin (u16 ''sala'') (u16 ''Ana'')))
            = Some [(u16 ''sala'', ?r2)]" by code_simp
  qed
  show ?thesis
    using 2
  proof (rule reachable_by_step_fst)
    show "u16 ''p1'' \<noteq> []" by code_simp
    show "no_own_join [(u16 ''sala'', ?r2)] (u16 ''p1'')
            (SheetSave (u16 ''sala'') (JObj [(u16 ''hp_now'', JNum (Fin 3))]))" by code_simp
    show "map_option fst (step example_host [(u16 ''sala'', ?r2)]
            (u16 ''p1'', SheetSave (u16 ''sala'') (JObj [(u16 ''hp_now'', JNum (Fin 3))])))
            = Some [(u16 ''sala'', example_room)]" by code_simp
  qed
qed

lemma rejoined_room_reachable:
  "reachable example_host [(u16 ''sala'', rejoined_room)]"
proof -
  let ?r1 = "\<lparr>masterSocketId = Some (u16 ''m1''),
      users = [(u16 ''m1'', \<lparr>u_name = u16 ''Mestre'', u_role = Master\<rparr>)],
      sheets = [], npcs = [], rolls = []\<rparr>"
  have 0: "reachable_by example_host any_event []" by (rule reachable_by.init)
  have 1: "reachable_by example_host any_event [(u16 ''sala'', ?r1)]"
    using 0
  proof (rule reachable_by_step_fst)
    show "u16 ''m1'' \<noteq> []" by code_simp
    show "any_event [] (u16 ''m1'') (RoomCreate (u16 ''sala'') [])" by (simp add: any_event_def)
    show "map_option fst (step example_host [] (u16 ''m1'', RoomCreate (u16 ''sala'') []))
            = Some [(u16 ''sala'', ?r1)]" by code_simp
  qed
  show ?thesis unfolding reachable_def
    using 1
  proof (rule reachable_by_step_fst)
    show "u16 ''m1'' \<noteq> []" by code_simp
    show "any_event [(u16 ''sala'', ?r1)] (u16 ''m1'') (RoomJoin (u16 ''sala'') [])" by (simp add: any_event_def)
    show "map_option fst (step example_host [(u16 ''sala'', ?r1)] (u16 ''m1'', RoomJoin (u16 ''sala'') []))
            = Some [(u16 ''sala'', rejoined_room)]" by code_simp
  qed
qed

subsection \<open>The master of a room\<close>

text \<open>
  Claim C10, amended. In every registry reachable from the empty one, a room's
  \<open>masterSocketId\<close>, when not null, is a key of the room's \<open>users\<close>; and the user
  stored under it has role Master in every registry reached without a master sending
  \<^verbatim>\<open>room:join\<close> for its own room.
\<close>

theorem master_is_registered:
  assumes "map_of rooms rid = Some room" and "masterSocketId room = Some m"
  shows "(reachable h rooms \<longrightarrow> map_of (users room) m \<noteq> None)
       \<and> (reachable_by h no_own_join rooms \<longrightarrow>
            (\<exists>u. map_of (users room) m = Some u \<and> u_role u = Master))"
proof (intro conjI impI)
  assume "reachable h rooms"
  then have "registry_inv h False rooms" by (rule reachable_inv)
  then have "room_inv h False room" using assms(1) inv_lookup by blast
  then show "map_of (users room) m \<noteq> None" using assms(2) by (simp add: room_inv_def)
next
  assume "reachable_by h no_own_join rooms"
  then have "registry_inv h True rooms" by (rule reachable_strict_inv)
  then have "room_inv h True room" using assms(1) inv_lookup by blast
  then show "\<exists>u. map_of (users room) m = Some u \<and> u_role u = Master"
    using assms(2) by (auto simp add: room_inv_def master_role_ok_def)
qed

text \<open>
  As claimed, the role would be Master in every reachable registry. A master that joins
  its own room is stored again, with role Player, and stays \<open>masterSocketId\<close>.
\<close>

theorem master_role_counterexample:
  "reachable example_host [(u16 ''sala'', rejoined_room)]
   \<and> map_of [(u16 ''sala'', rejoined_room)] (u16 ''sala'') = Some rejoined_room
   \<and> masterSocketId rejoined_room = Some (u16 ''m1'')
   \<and> map_of (users rejoined_room) (u16 ''m1'') = Some \<lparr>u_name = u16 ''Player'', u_role = Player\<rparr>"
proof -
  have "map_of [(u16 ''sala'', rejoined_room)] (u16 ''sala'') = Some rejoined_room" by simp
  moreover have "masterSocketId rejoined_room = Some (u16 ''m1'')" by (simp add: rejoined_room_def)
  moreover have "map_of (users rejoined_room) (u16 ''m1'') = Some \<lparr>u_name = u16 ''Player'', u_role = Player\<rparr>"
    by (simp add: rejoined_room_def)
  ultimately show ?thesis using rejoined_room_reachable by blast
qed

theorem master_is_registered_witness:
  "map_of [(u16 ''sala'', example_room)] (u16 ''sala'') = Some example_room
   \<and> masterSocketId example_room = Some (u16 ''m1'')
   \<and> reachable example_host [(u16 ''sala'', example_room)]
   \<and> reachable_by example_host no_own_join [(u16 ''sala'', example_room)]
   \<and> map_of (users example_room) (u16 ''m1'') = Some \<lparr>u_name = u16 ''Mestre'', u_role = Master\<rparr>"
proof -
  have a: "map_of [(u16 ''sala'', example_room)] (u16 ''sala'') = Some example_room" by simp
  have b: "masterSocketId example_room = Some (u16 ''m1'')" by (simp add: example_room_def)
  have c: "reachable example_host [(u16 ''sala'', example_room)]"
    using example_room_reachable by (rule reachable_by_weaken)
  have d: "map_of (users example_room) (u16 ''m1'') = Some \<lparr>u_name = u16 ''Mestre'', u_role = Master\<rparr>"
    by (simp add: example_room_def)
  show ?thesis
    using a b c d example_room_reachable master_is_registered[OF a b, of example_host]
    by blast
qed

text \<open>
  Claim C1. In a reachable registry, \<^verbatim>\<open>room:create\<close> for a room whose master is
  registered in \<open>users\<close> makes one transport call, the \<^verbatim>\<open>error:msg\<close> that the room has
  a master, emitted on the caller's socket, and leaves the registry (every room, with its
  master, users, sheets, NPCs and rolls) as it was.
\<close>

theorem second_create_rejected:
  assumes "reachable h rooms"
      and "map_of rooms (safeRoomId raw) = Some room"
      and "masterSocketId room = Some m"
      and "map_of (users room) m \<noteq> None"
  shows "step h rooms (sid, RoomCreate raw name)
           = Some (rooms, [Emit sid (ErrorMsg AlreadyHasMaster)])"
proof -
  have inv: "registry_inv h False rooms" using assms(1) by (rule reachable_inv)
  have ne: "safeRoomId raw \<noteq> []" and r: "room_inv h False room"
    using inv_lookup[OF inv assms(2)] by simp_all
  have m: "m \<noteq> []" using r assms(3) by (simp add: room_inv_def)
  have e: "ensureRoom rooms (safeRoomId raw) = (rooms, room)"
    using assms(2) by (simp add: ensureRoom_def)
  show ?thesis using ne m e assms(3,4) by (simp add: room_create_def truthy_id_def)
qed

theorem second_create_rejected_witness:
  "reachable example_host [(u16 ''sala'', example_room)]
   \<and> map_of [(u16 ''sala'', example_room)] (safeRoomId (u16 ''sala'')) = Some example_room
   \<and> masterSocketId example_room = Some (u16 ''m1'')
   \<and> map_of (users example_room) (u16 ''m1'') = Some \<lparr>u_name = u16 ''Mestre'', u_role = Master\<rparr>
   \<and> step example_host [(u16 ''sala'', example_room)] (u16 ''p1'', RoomCreate (u16 ''sala'') (u16 ''Ana''))
        = Some ([(u16 ''sala'', example_room)], [Emit (u16 ''p1'') (ErrorMsg AlreadyHasMaster)])"
proof -
  have a: "map_of [(u16 ''sala'', example_room)] (safeRoomId (u16 ''sala'')) = Some example_room" by code_simp
  have b: "masterSocketId example_room = Some (u16 ''m1'')" by (simp add: example_room_def)
  have c: "reachable example_host [(u16 ''sala'', example_room)]"
    using example_room_reachable by (rule reachable_by_weaken)
  have d: "map_of (users example_room) (u16 ''m1'') = Some \<lparr>u_name = u16 ''Mestre'', u_role = Master\<rparr>"
    by (simp add: example_room_def)
  have d': "map_of (users example_room) (u16 ''m1'') \<noteq> None" using d by simp
  show ?thesis
    using a b c d second_create_rejected[OF c a b d', of "u16 ''p1''" "u16 ''Ana''"]
    by blast
qed

subsection \<open>The roll ledger\<close>

lemma drop_push_roll:
  assumes "length rs \<le> 50"
  shows "drop (length (push_roll rs e) + n - 50) (push_roll rs e @ es)
           = drop (length rs + Suc n - 50) (rs @ e # es)"
proof (cases "length rs < 50")
  case True
  then show ?thesis by (simp add: push_roll_def Let_def)
next
  case False
  then have l: "length rs = 50" using assms by simp
  then obtain r rs' where rs: "rs = r # rs'" by (cases rs) auto
  have "push_roll rs e = rs' @ [e]" using l rs by (simp add: push_roll_def Let_def)
  then show ?thesis using l rs by simp
qed

lemma roll_send_step:
  assumes "map_of rooms (safeRoomId raw) = Some room"
  shows "step h rooms (send_event raw s) =
     (case send_entry room (safeRoomId raw) s of
        None \<Rightarrow> Some (rooms, [])
      | Some e \<Rightarrow> Some (AList.update (safeRoomId raw) (room\<lparr>rolls := push_roll (rolls room) e\<rparr>) rooms,
                       [To (Some (safeRoomId raw)) (RollBroadcast e)]))"
  using assms
  by (cases s) (simp add: send_event_def send_entry_def roll_send_def Let_def split: option.splits)

lemma roll_ledger_run:
  "map_of rooms (safeRoomId raw) = Some room \<Longrightarrow> length (rolls room) \<le> 50 \<Longrightarrow>
   run h rooms (map (send_event raw) sends) =
     Some (AList.update (safeRoomId raw)
             (room\<lparr>rolls := drop (length (rolls room)
                                   + length (List.map_filter (send_entry room (safeRoomId raw)) sends) - 50)
                                (rolls room @ List.map_filter (send_entry room (safeRoomId raw)) sends)\<rparr>)
             rooms,
           map (\<lambda>e. To (Some (safeRoomId raw)) (RollBroadcast e))
               (List.map_filter (send_entry room (safeRoomId raw)) sends))"
proof (induction sends arbitrary: rooms room)
  case Nil
  then show ?case by (simp add: update_triv)
next
  case (Cons s sends)
  let ?rid = "safeRoomId raw"
  show ?case
  proof (cases "send_entry room ?rid s")
    case None
    then show ?thesis
      using Cons.prems Cons.IH[OF Cons.prems] roll_send_step[OF Cons.prems(1), of h s]
      by simp
  next
    case (Some e)
    let ?room1 = "room\<lparr>rolls := push_roll (rolls room) e\<rparr>"
    let ?rooms1 = "AList.update ?rid ?room1 rooms"
    have st: "step h rooms (send_event raw s) = Some (?rooms1, [To (Some ?rid) (RollBroadcast e)])"
      using roll_send_step[OF Cons.prems(1), of h s] Some by simp
    have l1: "map_of ?rooms1 ?rid = Some ?room1" by (simp add: update_conv')
    have l2: "length (rolls ?room1) \<le> 50" using Cons.prems(2) by (simp add: length_push_roll)
    have se: "send_entry ?room1 ?rid = send_entry room ?rid" by (simp add: send_entry_def)
    note ih = Cons.IH[OF l1 l2, unfolded se]
    show ?thesis
      using st ih Some drop_push_roll[OF Cons.prems(2)]
      by simp
  qed
qed

text \<open>
  Claim C2. In a room whose ledger holds at most 50 rolls (every room of a reachable
  registry does), any sequence of \<^verbatim>\<open>roll:send\<close> events for that room is handled without
  failure; each send of a registered connection appends its entry at the end and is
  broadcast once to the room, in order; after the sequence the ledger is the last 50
  entries of the old ledger followed by the new entries, so it never exceeds 50. One
  append pushes the entry and, when 50 were held, drops exactly the oldest. Fifty-five
  sends to a fresh room leave the last fifty.
\<close>

theorem roll_ledger_bounded:
  assumes "map_of rooms (safeRoomId raw) = Some room" and "length (rolls room) \<le> 50"
  shows "\<exists>rooms' room'.
           run h rooms (map (send_event raw) sends)
             = Some (rooms', map (\<lambda>e. To (Some (safeRoomId raw)) (RollBroadcast e))
                               (List.map_filter (send_entry room (safeRoomId raw)) sends))
         \<and> map_of rooms' (safeRoomId raw) = Some room'
         \<and> rolls room' = drop (length (rolls room)
                                 + length (List.map_filter (send_entry room (safeRoomId raw)) sends) - 50)
                              (rolls room @ List.map_filter (send_entry room (safeRoomId raw)) sends)
         \<and> length (rolls room') \<le> 50
         \<and> push_roll (rolls room) e
             = (if length (rolls room) < 50 then rolls room @ [e] else tl (rolls room) @ [e])"
proof -
  have "push_roll (rolls room) e
             = (if length (rolls room) < 50 then rolls room @ [e] else tl (rolls room) @ [e])"
    using assms(2) by (cases "rolls room") (auto simp add: push_roll_def Let_def)
  then show ?thesis
    using roll_ledger_run[OF assms, of h sends] assms(2)
    by (simp add: update_conv')
qed


lemma map_filter_map_Some:
  "(\<And>x. f (g x) = Some (e x)) \<Longrightarrow> List.map_filter f (map g xs) = map e xs"
  by (induction xs) simp_all

theorem roll_ledger_bounded_witness:
  "map_of [(u16 ''sala'', example_room)] (safeRoomId (u16 ''sala'')) = Some example_room
   \<and> length (rolls example_room) \<le> 50
   \<and> (\<exists>rooms' room'.
         run example_host [(u16 ''sala'', example_room)] (map (send_event (u16 ''sala'')) example_sends)
           = Some (rooms', map (\<lambda>i. To (Some (u16 ''sala'')) (RollBroadcast (example_roll i))) [0..<55])
       \<and> map_of rooms' (u16 ''sala'') = Some room'
       \<and> rolls room' = map example_roll [5..<55]
       \<and> length (rolls room') = 50)"
proof -
  have id: "safeRoomId (u16 ''sala'') = u16 ''sala''" by code_simp
  have a: "map_of [(u16 ''sala'', example_room)] (safeRoomId (u16 ''sala'')) = Some example_room"
    by (simp add: id)
  have b: "length (rolls example_room) \<le> 50" by (simp add: example_room_def)
  have p1: "map_of (users example_room) (u16 ''p1'') = Some \<lparr>u_name = u16 ''Ana'', u_role = Player\<rparr>"
    by code_simp
  have es: "List.map_filter (send_entry example_room (u16 ''sala'')) example_sends
              = map example_roll [0..<55]"
    unfolding example_sends_def
    by (rule map_filter_map_Some) (simp add: send_entry_def p1 example_roll_def)
  have r: "rolls example_room = []" by (simp add: example_room_def)
  have d: "drop (length (rolls example_room) + length (map example_roll [0..<55]) - 50)
             (rolls example_room @ map example_roll [0..<55]) = map example_roll [5..<55]"
    by (simp add: r drop_map)
  show ?thesis
    using a b roll_ledger_bounded[OF a b, of example_host example_sends "example_roll 0"]
    unfolding id es d by (auto simp add: comp_def)
qed

subsection \<open>Joining a room\<close>









subsection \<open>Losing a connection\<close>

lemma disconnect_scan_find:
  "List.find (\<lambda>(rid, r). map_of (users r) sid \<noteq> None) rest = Some (roomId, room)
   \<Longrightarrow> disconnect_scan h rooms rest sid = disconnect_scan h rooms [(roomId, room)] sid"
proof (induction rest)
  case Nil
  then show ?case by simp
next
  case (Cons p rest)
  obtain k r where p: "p = (k, r)" by (cases p)
  show ?case
  proof (cases "map_of (users r) sid = None")
    case True
    then show ?thesis using Cons p by (simp del: disconnect_scan.simps add: disconnect_scan_skip)
  next
    case False
    then have "p = (roomId, room)" using Cons.prems p by simp
    then show ?thesis using False p
      by (simp del: disconnect_scan.simps add: disconnect_scan_found)
  qed
qed

lemma disconnect_scan_none:
  "List.find (\<lambda>(rid, r). map_of (users r) sid \<noteq> None) rest = None
   \<Longrightarrow> disconnect_scan h rooms rest sid = Some (rooms, [])"
  by (induction rest) (auto split: if_splits)

text \<open>
  Claim C8. In a reachable registry, let \<open>room\<close> be the first room, in the order of the
  registry, that has the connection among its users. \<^verbatim>\<open>disconnect\<close> replaces it by
  \<open>leave room sid\<close>: the connection is deleted from \<open>users\<close>, \<open>masterSocketId\<close> is
  cleared when it was the master, and sheets, NPCs and rolls are kept. A master's
  disconnect broadcasts the no-master notice to the room and nothing else; otherwise the
  only transport call is the fresh index sent to the master, when there is one. The room
  is deleted exactly when no user is left, and every other room is as it was, also those
  that hold the connection.
\<close>

theorem disconnect_effect:
  assumes reach: "reachable h rooms"
      and found: "List.find (\<lambda>(rid, r). map_of (users r) sid \<noteq> None) rooms = Some (roomId, room)"
  shows "\<exists>ix rooms'.
           buildIndex h (leave room sid) = Some ix
         \<and> disconnect h rooms sid
             = Some (rooms',
                     if masterSocketId room = Some sid
                     then [To (Some roomId) (ErrorMsg MasterDisconnected)]
                     else if masterSocketId room = None then []
                     else [To (masterSocketId room) (SheetsIndex ix)])
         \<and> rooms' = (if users (leave room sid) = [] then AList.delete roomId rooms
                     else AList.update roomId (leave room sid) rooms)
         \<and> map_of rooms' roomId = (if users (leave room sid) = [] then None else Some (leave room sid))
         \<and> (\<forall>k. k \<noteq> roomId \<longrightarrow> map_of rooms' k = map_of rooms k)
         \<and> users (leave room sid) = AList.delete sid (users room)
         \<and> map_of (users (leave room sid)) sid = None
         \<and> masterSocketId (leave room sid)
             = (if masterSocketId room = Some sid then None else masterSocketId room)
         \<and> sheets (leave room sid) = sheets room
         \<and> npcs (leave room sid) = npcs room
         \<and> rolls (leave room sid) = rolls room"
proof -
  have inv: "registry_inv h False rooms" using reach by (rule reachable_inv)
  have mem: "(roomId, room) \<in> set rooms" and user: "map_of (users room) sid \<noteq> None"
    using found by (auto simp add: find_Some_iff in_set_conv_nth)
  have r: "room_inv h False room" using inv mem by (auto simp add: registry_inv_def)
  have "buildIndex h (leave room sid) \<noteq> None" using r by (simp add: room_inv_def buildIndex_leave)
  then obtain ix where ix: "buildIndex h (leave room sid) = Some ix" by blast
  have t: "truthy_id (masterSocketId (leave room sid))
             \<longleftrightarrow> masterSocketId room \<noteq> Some sid \<and> masterSocketId room \<noteq> None"
    using r by (auto simp add: room_inv_def leave_fields truthy_id_def split: option.splits)
  let ?rooms' = "if users (leave room sid) = [] then AList.delete roomId rooms
                 else AList.update roomId (leave room sid) rooms"
  have d: "disconnect h rooms sid
             = Some (?rooms',
                     if masterSocketId room = Some sid
                     then [To (Some roomId) (ErrorMsg MasterDisconnected)]
                     else if masterSocketId room = None then []
                     else [To (masterSocketId room) (SheetsIndex ix)])"
    unfolding disconnect_def disconnect_scan_find[OF found] disconnect_scan_found[OF user] t
    by (simp add: emitIndex_def ix leave_fields)
  have l: "map_of ?rooms' roomId = (if users (leave room sid) = [] then None else Some (leave room sid))"
    by (simp add: delete_conv' update_conv')
  have o: "\<forall>k. k \<noteq> roomId \<longrightarrow> map_of ?rooms' k = map_of rooms k"
    by (simp add: delete_conv' update_conv')
  have u: "map_of (users (leave room sid)) sid = None" by (simp add: leave_fields delete_conv')
  show ?thesis using ix d l o u by (simp add: leave_fields)
qed

theorem disconnect_effect_witness:
  "reachable example_host [(u16 ''sala'', example_room)]
   \<and> List.find (\<lambda>(rid, r). map_of (users r) (u16 ''m1'') \<noteq> None) [(u16 ''sala'', example_room)]
       = Some (u16 ''sala'', example_room)
   \<and> masterSocketId example_room = Some (u16 ''m1'')
   \<and> disconnect example_host [(u16 ''sala'', example_room)] (u16 ''m1'')
       = Some ([(u16 ''sala'', left_room)], [To (Some (u16 ''sala'')) (ErrorMsg MasterDisconnected)])"
proof -
  have c: "reachable example_host [(u16 ''sala'', example_room)]"
    using example_room_reachable by (rule reachable_by_weaken)
  have f: "List.find (\<lambda>(rid, r). map_of (users r) (u16 ''m1'') \<noteq> None) [(u16 ''sala'', example_room)]
       = Some (u16 ''sala'', example_room)"
    by (simp add: example_room_def)
  have m: "masterSocketId example_room = Some (u16 ''m1'')" by (simp add: example_room_def)
  have l: "leave example_room (u16 ''m1'') = left_room" by code_simp
  have u: "users left_room \<noteq> []" by (simp add: left_room_def)
  show ?thesis
    using c f m disconnect_effect[OF c f] u unfolding l
    by auto
qed

lemma disconnect_scenario:
  "map_option fst (run example_host []
     [(u16 ''m1'', RoomCreate (u16 ''sala'') []),
      (u16 ''p1'', RoomJoin (u16 ''sala'') (u16 ''Ana'')),
      (u16 ''p2'', RoomJoin (u16 ''sala'') (u16 ''Bia'')),
      (u16 ''m1'', Disconnect)])
   = Some [(u16 ''sala'',
            \<lparr>masterSocketId = None,
             users = [(u16 ''p1'', \<lparr>u_name = u16 ''Ana'', u_role = Player\<rparr>),
                      (u16 ''p2'', \<lparr>u_name = u16 ''Bia'', u_role = Player\<rparr>)],
             sheets = [], npcs = [], rolls = []\<rparr>)]"
  "map_option fst (run example_host []
     [(u16 ''m1'', RoomCreate (u16 ''sala'') []),
      (u16 ''p1'', RoomJoin (u16 ''sala'') (u16 ''Ana'')),
      (u16 ''p2'', RoomJoin (u16 ''sala'') (u16 ''Bia'')),
      (u16 ''m1'', Disconnect), (u16 ''p1'', Disconnect), (u16 ''p2'', Disconnect)])
   = Some []"
  by code_simp+

end
